theory Spec2Isabelle
  imports Complex_Main
begin

section \<open>Microphone pitch detection: note mapping, RMS and the stability gate\<close>

text \<open>
  The development embeds \<^verbatim>\<open>src/utils/micUtils.js\<close> (the YIN variant with the three
  detection presets) and, for the silence-gap rule, the loop of the McLeod variant of the
  same module. A JavaScript number is a double, and every finite double is a real number;
  the one non-real value the code can compute from real inputs, \<^verbatim>\<open>0/0 = NaN\<close>, is kept as a
  value of its own. Integer-valued numbers (MIDI numbers, frame counts, millisecond
  timestamps) are \<open>int\<close> or \<open>nat\<close>. Operations that are exact on the doubles the code meets
  are modelled by the real operations. The one expression of \<^verbatim>\<open>freqToNote\<close> that rounds,
  \<^verbatim>\<open>12 * Math.log2(freq / 440) + 69\<close>, is not computed by the model: the double it
  evaluates to is an input. \<^verbatim>\<open>getRms\<close> is modelled in real arithmetic, and what is said of
  it beyond the values that are exact in doubles is said with a tolerance.
\<close>

subsection \<open>Numbers\<close>

datatype number = NaN | Num real

text \<open>\<^verbatim>\<open>a >= b\<close> and \<^verbatim>\<open>a < b\<close> with a possibly-NaN left operand: every comparison with
  NaN is false.\<close>

fun num_ge :: "number \<Rightarrow> real \<Rightarrow> bool" where
  "num_ge NaN b = False"
| "num_ge (Num a) b = (b \<le> a)"

fun num_lt :: "number \<Rightarrow> real \<Rightarrow> bool" where
  "num_lt NaN b = False"
| "num_lt (Num a) b = (a < b)"

text \<open>\<^verbatim>\<open>a % b\<close> on integers: the remainder takes the sign of the dividend.\<close>

definition js_rem :: "int \<Rightarrow> int \<Rightarrow> int" where
  "js_rem a b = sgn a * (\<bar>a\<bar> mod \<bar>b\<bar>)"

text \<open>\<^verbatim>\<open>Math.round\<close>: the nearest integer, a half rounding towards plus infinity.\<close>

definition math_round :: "real \<Rightarrow> int" where
  "math_round x = \<lfloor>x + 1 / 2\<rfloor>"

subsection \<open>Notes and presets\<close>

record noteobj =
  name :: string
  octave :: int

record preset =
  fftSize :: nat
  yinThreshold :: real
  rmsThreshold :: real
  snapTolerance :: real

definition strict :: preset where
  "strict = \<lparr>fftSize = 4096, yinThreshold = 1 / 10, rmsThreshold = 2 / 100, snapTolerance = 35 / 100\<rparr>"

definition normal :: preset where
  "normal = \<lparr>fftSize = 4096, yinThreshold = 2 / 10, rmsThreshold = 15 / 1000, snapTolerance = 45 / 100\<rparr>"

definition piano :: preset where
  "piano = \<lparr>fftSize = 8192, yinThreshold = 25 / 100, rmsThreshold = 1 / 100, snapTolerance = 5 / 10\<rparr>"

definition SAME_NOTE_COOLDOWN_MS :: int where
  "SAME_NOTE_COOLDOWN_MS = 1500"

definition ANY_NOTE_COOLDOWN_MS :: int where
  "ANY_NOTE_COOLDOWN_MS = 100"

definition STABLE_FRAMES :: nat where
  "STABLE_FRAMES = 3"

definition NOTE_NAMES :: "string list" where
  "NOTE_NAMES = [''C'', ''C#'', ''D'', ''D#'', ''E'', ''F'', ''F#'', ''G'', ''G#'', ''A'', ''A#'', ''B'']"

subsection \<open>freqToNote\<close>

text \<open>\<^verbatim>\<open>NOTE_NAMES[((midi % 12) + 12) % 12]\<close>; the index is always within the table.\<close>

definition noteName :: "int \<Rightarrow> string" where
  "noteName midi = NOTE_NAMES ! nat (js_rem (js_rem midi 12 + 12) 12)"

text \<open>\<^verbatim>\<open>name.includes('#')\<close>\<close>

definition includesSharp :: "string \<Rightarrow> bool" where
  "includesSharp nm = (CHR ''#'' \<in> set nm)"

text \<open>
  One iteration of the search loop. The pair is \<^verbatim>\<open>(bestMidi, bestDist)\<close>; \<^verbatim>\<open>bestMidi\<close> is
  \<open>None\<close> for \<^verbatim>\<open>null\<close> and \<^verbatim>\<open>bestDist\<close> is \<open>None\<close> for \<^verbatim>\<open>Infinity\<close>.
\<close>

definition scan :: "real \<Rightarrow> int option \<times> real option \<Rightarrow> int \<Rightarrow> int option \<times> real option" where
  "scan midiFloat best midi =
     (if includesSharp (noteName midi) then best
      else
        let dist = \<bar>midiFloat - real_of_int midi\<bar> in
        if (case snd best of None \<Rightarrow> True | Some bestDist \<Rightarrow> dist < bestDist)
        then (Some midi, Some dist)
        else best)"

text \<open>
  \<^verbatim>\<open>freqToNote(freq, snapTolerance)\<close>. The line
  \<^verbatim>\<open>const midiFloat = 12 * Math.log2(freq / 440) + 69\<close> is evaluated in double arithmetic
  and rounds, so its value is an argument of the model: \<open>freqToNote freq midiFloat tol\<close> is
  the result of the call when that line yields the double \<open>midiFloat\<close>. Everything after it
  is exact on doubles: \<^verbatim>\<open>Math.round\<close>, the difference of \<open>midiFloat\<close> (between 20 and 109)
  and an integer no farther than 2.5 from it, the comparisons, and the floor of
  \<^verbatim>\<open>bestMidi / 12\<close>.
\<close>

definition freqToNote :: "real \<Rightarrow> real \<Rightarrow> real \<Rightarrow> noteobj option" where
  "freqToNote freq midiFloat tol =
     (if freq < 27 \<or> freq > 4200 then None
      else
        let center = math_round midiFloat;
            best = foldl (scan midiFloat) (None, None) [center - 2 .. center + 2]
        in case best of
             (None, _) \<Rightarrow> None
           | (Some bestMidi, bestDist) \<Rightarrow>
               if (case bestDist of None \<Rightarrow> True | Some d \<Rightarrow> d > tol) then None
               else Some \<lparr>name = noteName bestMidi,
                          octave = \<lfloor>real_of_int bestMidi / 12\<rfloor> - 1\<rparr>)"

subsection \<open>getRms\<close>

text \<open>
  The sum of squares is accumulated left to right; the mean divides by \<^verbatim>\<open>buf.length\<close>, and
  for an empty buffer that is \<^verbatim>\<open>0/0\<close>, which is NaN, and so is its square root.
\<close>

definition getRms :: "real list \<Rightarrow> number" where
  "getRms buf =
     (let sum = foldl (\<lambda>sum x. sum + x * x) 0 buf
      in if length buf = 0 then NaN else Num (sqrt (sum / real (length buf))))"

text \<open>A MIDI number names a natural note when its name has no sharp sign (the test the
  search loop applies before it considers a candidate).\<close>

definition natural :: "int \<Rightarrow> bool" where
  "natural midi = (\<not> includesSharp (noteName midi))"

text \<open>The buffer of the unit test of \<^verbatim>\<open>getRms\<close>: sample \<open>i\<close> is
  \<^verbatim>\<open>Math.sin((2 * Math.PI * i) / period)\<close> (the test uses 1024 samples and period 128).\<close>

definition sineBuffer :: "nat \<Rightarrow> nat \<Rightarrow> real list" where
  "sineBuffer len period = map (\<lambda>i. sin (2 * pi * real i / real period)) [0..<len]"

text \<open>The number that the first line of \<^verbatim>\<open>freqToNote\<close> approximates: the fractional MIDI
  number of a frequency, in exact arithmetic. It is a reference value; the code never
  holds it unless the double computation happens to be exact (as at 440 Hz and 880 Hz).\<close>

definition exactMidi :: "real \<Rightarrow> real" where
  "exactMidi freq = 12 * log 2 (freq / 440) + 69"

text \<open>The double \<^verbatim>\<open>339.286381589747\<close> (that is \<open>5968789147263549 / 2 ^ 44\<close>), a frequency at
  which \<^verbatim>\<open>12 * Math.log2(freq / 440) + 69\<close> evaluates to exactly 64.5, midway between E4
  and F4.\<close>

definition tieFreq :: real where
  "tieFreq = 5968789147263549 / 17592186044416"


definition midi4250 :: real where
  "midi4250 = 3809153323932011 / 35184372088832"

text \<open>A buffer holds a unit-amplitude sine wave of angular step \<open>w\<close> per sample and phase
  \<open>ph\<close>, up to the error \<open>d\<close>, when each of its samples is within \<open>d\<close> of the sample
  \<open>sin (w i + ph)\<close> of the wave (a \<^verbatim>\<open>Float32Array\<close> rounds what is stored into it to single
  precision, an error below \<open>2 ^ -24\<close> for samples of magnitude at most 1).\<close>

definition nearSine :: "real \<Rightarrow> real \<Rightarrow> real \<Rightarrow> real list \<Rightarrow> bool" where
  "nearSine d w ph xs =
     list_all (\<lambda>i. \<bar>xs ! i - sin (w * real i + ph)\<bar> \<le> d) [0..<length xs]"

subsection \<open>Module state\<close>

text \<open>
  Browser objects (the audio context, the analyser, the source node, the media stream)
  are opaque handles. \<^verbatim>\<open>rafId\<close> is the number \<^verbatim>\<open>requestAnimationFrame\<close> returned, and
  \<^verbatim>\<open>null\<close> is \<open>None\<close> throughout.
\<close>

type_synonym handle = nat

record session =
  audioCtx :: "handle option"
  analyser :: "handle option"
  source :: "handle option"
  stream :: "handle option"
  rafId :: "nat option"
  lastFiredNote :: "string option"
  lastFiredTime :: int
  suppressUntil :: int
  stableNote :: "noteobj option"
  stableCount :: nat

text \<open>The values the module-level variables are initialised with.\<close>

definition released :: session where
  "released = \<lparr>audioCtx = None, analyser = None, source = None, stream = None, rafId = None,
     lastFiredNote = None, lastFiredTime = 0, suppressUntil = 0,
     stableNote = None, stableCount = 0\<rparr>"

text \<open>The callbacks a frame invokes, in order.\<close>

datatype call = OnHeard string real | OnNote string int

fun isOnNote :: "call \<Rightarrow> bool" where
  "isOnNote (OnNote nm oct) = True"
| "isOnNote (OnHeard nm freq) = False"

definition fired :: "call list \<Rightarrow> call list" where
  "fired calls = filter isOnNote calls"

text \<open>
  What one tick of the polling loop takes from its environment: the analyser's buffer,
  the frequency the pitch detector of the \<^verbatim>\<open>pitchfinder\<close> library returns for that buffer
  (\<open>None\<close> for \<^verbatim>\<open>null\<close>), the double that \<^verbatim>\<open>12 * Math.log2(freq / 440) + 69\<close> evaluates to
  inside \<^verbatim>\<open>freqToNote\<close> for that frequency (read only when \<^verbatim>\<open>freqToNote\<close> is called),
  \<^verbatim>\<open>Date.now()\<close>, and the id the next \<^verbatim>\<open>requestAnimationFrame(loop)\<close> returns.
\<close>

record frame =
  buf :: "real list"
  detected :: "real option"
  midiFloat :: real
  now :: int
  nextRaf :: nat

subsection \<open>The polling loop of the YIN variant\<close>

text \<open>The first lines of \<^verbatim>\<open>loop\<close>: \<^verbatim>\<open>rms\<close>, \<^verbatim>\<open>rawFreq\<close>, \<^verbatim>\<open>freq\<close> and \<^verbatim>\<open>note\<close>.\<close>

definition candidate :: "preset \<Rightarrow> frame \<Rightarrow> real \<times> noteobj option" where
  "candidate preset fr =
     (let rms = getRms (buf fr);
          rawFreq = (if num_ge rms (rmsThreshold preset) then detected fr else None);
          freq = (case rawFreq of None \<Rightarrow> - 1 | Some f \<Rightarrow> f);
          note = (if freq > 0 then freqToNote freq (midiFloat fr) (snapTolerance preset) else None)
      in (freq, note))"

text \<open>\<^verbatim>\<open>if (onHeard && candidateName) onHeard(candidateName, freq)\<close>, with the callback given.\<close>

definition heard :: "real \<times> noteobj option \<Rightarrow> call list" where
  "heard c = (case snd c of None \<Rightarrow> [] | Some n \<Rightarrow> [OnHeard (name n) (fst c)])"

text \<open>
  The tracking update: a candidate whose name equals the tracked note's name adds to
  the count, any other candidate replaces the tracked note, and no candidate leaves the
  state as it is.
\<close>

definition track :: "noteobj option \<Rightarrow> 'a session_scheme \<Rightarrow> 'a session_scheme" where
  "track note s =
     (case note of
        None \<Rightarrow> s
      | Some n \<Rightarrow>
          (case stableNote s of
             None \<Rightarrow> s\<lparr>stableNote := Some n, stableCount := 1\<rparr>
           | Some sn \<Rightarrow>
               if name n = name sn then s\<lparr>stableCount := stableCount s + 1\<rparr>
               else s\<lparr>stableNote := Some n, stableCount := 1\<rparr>))"

text \<open>The firing check: \<^verbatim>\<open>if (stableCount >= STABLE_FRAMES && stableNote) { ... }\<close>.\<close>

definition fire :: "int \<Rightarrow> session \<Rightarrow> call list \<times> session" where
  "fire t s =
     (case stableNote s of
        None \<Rightarrow> ([], s)
      | Some sn \<Rightarrow>
          if STABLE_FRAMES \<le> stableCount s then
            let timeSinceLastFire = t - lastFiredTime s;
                sameNote = (lastFiredNote s = Some (name sn))
            in if timeSinceLastFire < ANY_NOTE_COOLDOWN_MS then ([], s)
               else if \<not> sameNote \<or> timeSinceLastFire > SAME_NOTE_COOLDOWN_MS then
                 ([OnNote (name sn) (octave sn)],
                  s\<lparr>lastFiredNote := Some (name sn), lastFiredTime := t,
                    stableNote := None, stableCount := 0\<rparr>)
               else ([], s)
          else ([], s))"

definition loop :: "preset \<Rightarrow> frame \<Rightarrow> session \<Rightarrow> call list \<times> session" where
  "loop preset fr s =
     (let c = candidate preset fr;
          s1 = track (snd c) s
      in if now fr < suppressUntil s1 then
           (heard c, s1\<lparr>stableNote := None, stableCount := 0, rafId := Some (nextRaf fr)\<rparr>)
         else
           let (calls, s2) = fire (now fr) s1
           in (heard c @ calls, s2\<lparr>rafId := Some (nextRaf fr)\<rparr>))"

text \<open>The loop re-schedules itself on every animation frame; a finite run of it is the
  sequence of its ticks on the frames the browser delivers.\<close>

fun run :: "preset \<Rightarrow> frame list \<Rightarrow> session \<Rightarrow> call list \<times> session" where
  "run preset [] s = ([], s)"
| "run preset (fr # frs) s =
     (let (calls1, s1) = loop preset fr s;
          (calls2, s2) = run preset frs s1
      in (calls1 @ calls2, s2))"

text \<open>\<^verbatim>\<open>suppressMicListening(durationMs)\<close>, called when \<^verbatim>\<open>Date.now()\<close> is \<open>clock\<close>.\<close>

definition suppressMicListening :: "int \<Rightarrow> int \<Rightarrow> 'a session_scheme \<Rightarrow> 'a session_scheme" where
  "suppressMicListening durationMs clock s = s\<lparr>suppressUntil := clock + durationMs\<rparr>"

subsection \<open>stopMicListening\<close>

text \<open>
  The browser calls \<^verbatim>\<open>stopMicListening\<close> makes are recorded in order. \<^verbatim>\<open>if (rafId)\<close> tests a
  number, so a zero id counts as absent; the other variables hold objects or \<^verbatim>\<open>null\<close>.
\<close>

datatype effect =
    CancelAnimationFrame nat
  | Disconnect handle
  | CloseContext handle
  | StopTracks handle

definition stopMicListening :: "session \<Rightarrow> effect list \<times> session" where
  "stopMicListening s =
     (let (e1, s1) = (case rafId s of
                        None \<Rightarrow> ([], s)
                      | Some r \<Rightarrow> if r = 0 then ([], s)
                                  else ([CancelAnimationFrame r], s\<lparr>rafId := None\<rparr>));
          (e2, s2) = (case source s1 of
                        None \<Rightarrow> ([], s1)
                      | Some h \<Rightarrow> ([Disconnect h], s1\<lparr>source := None\<rparr>));
          s3 = s2\<lparr>analyser := None\<rparr>;
          (e4, s4) = (case audioCtx s3 of
                        None \<Rightarrow> ([], s3)
                      | Some h \<Rightarrow> ([CloseContext h], s3\<lparr>audioCtx := None\<rparr>));
          (e5, s5) = (case stream s4 of
                        None \<Rightarrow> ([], s4)
                      | Some h \<Rightarrow> ([StopTracks h], s4\<lparr>stream := None\<rparr>))
      in (e1 @ e2 @ e4 @ e5,
          s5\<lparr>lastFiredNote := None, lastFiredTime := 0, suppressUntil := 0,
            stableNote := None, stableCount := 0\<rparr>))"

subsection \<open>startMicListening\<close>

text \<open>
  Every statement of \<^verbatim>\<open>startMicListening\<close> stands inside one \<^verbatim>\<open>try\<close> block. Each browser
  call of the block either returns or throws an error object with a \<^verbatim>\<open>name\<close> and a
  \<^verbatim>\<open>message\<close>; the record \<open>browser\<close> fixes what each call does. The calls made inside the
  first, synchronous tick of \<^verbatim>\<open>loop\<close> are taken to return normally.
\<close>

record exn =
  exn_name :: string
  message :: string

datatype 'a outcome = Returns 'a | Throws exn

record browser =
  getUserMedia :: "handle outcome"
  newAudioContext :: "handle outcome"
  createAnalyser :: "handle outcome"
  createMediaStreamSource :: "handle outcome"
  connect :: "unit outcome"
  newDetector :: "unit outcome"

text \<open>\<^verbatim>\<open>MIC_PRESETS[options.mode ?? 'normal'] ?? MIC_PRESETS.normal\<close>, for the own keys of
  the table.\<close>

definition presetFor :: "string option \<Rightarrow> preset" where
  "presetFor mode =
     (let m = (case mode of None \<Rightarrow> ''normal'' | Some m \<Rightarrow> m)
      in if m = ''strict'' then strict
         else if m = ''normal'' then normal
         else if m = ''piano'' then piano
         else normal)"

text \<open>The message for a denied permission; its dash is U+2014, written here as the three
  bytes of its UTF-8 encoding.\<close>

definition DENIED :: string where
  "DENIED = ''Microphone access denied '' @ [CHR 0xE2, CHR 0x80, CHR 0x94]
     @ '' allow it in your browser settings and try again.''"

text \<open>The \<^verbatim>\<open>catch\<close> clause.\<close>

definition catch :: "exn \<Rightarrow> string option outcome" where
  "catch err =
     Returns (Some (if exn_name err = ''NotAllowedError'' then DENIED
                    else ''Microphone error: '' @ message err))"

text \<open>The result is what the returned promise settles with (\<open>Returns\<close> when it resolves,
  \<open>Throws\<close> when it rejects), the callbacks of the first tick, and the module state.\<close>

definition startMicListening ::
  "browser \<Rightarrow> string option \<Rightarrow> frame \<Rightarrow> session \<Rightarrow> string option outcome \<times> call list \<times> session" where
  "startMicListening env mode fr s =
     (let preset = presetFor mode in
      case getUserMedia env of
        Throws err \<Rightarrow> (catch err, [], s)
      | Returns st \<Rightarrow>
     (let s = s\<lparr>stream := Some st\<rparr> in
      case newAudioContext env of
        Throws err \<Rightarrow> (catch err, [], s)
      | Returns ctx \<Rightarrow>
     (let s = s\<lparr>audioCtx := Some ctx\<rparr> in
      case createAnalyser env of
        Throws err \<Rightarrow> (catch err, [], s)
      | Returns an \<Rightarrow>
     (let s = s\<lparr>analyser := Some an\<rparr> in
      case createMediaStreamSource env of
        Throws err \<Rightarrow> (catch err, [], s)
      | Returns src \<Rightarrow>
     (let s = s\<lparr>source := Some src\<rparr> in
      case connect env of
        Throws err \<Rightarrow> (catch err, [], s)
      | Returns _ \<Rightarrow>
     (case newDetector env of
        Throws err \<Rightarrow> (catch err, [], s)
      | Returns _ \<Rightarrow>
          let (calls, s') = loop preset fr s in (Returns None, calls, s')))))))"

subsection \<open>The polling loop of the McLeod variant\<close>

text \<open>
  The McLeod variant of the module has the same tracking and firing rules with other
  constants, two filter nodes, and the silence-gap counter in front of them.
\<close>

record mpm_preset =
  mpm_fftSize :: nat
  mpmCutoff :: real
  mpm_rmsThreshold :: real
  mpm_snapTolerance :: real
  filterLow :: real
  filterHigh :: real

definition mpm_strict :: mpm_preset where
  "mpm_strict = \<lparr>mpm_fftSize = 4096, mpmCutoff = 93 / 100, mpm_rmsThreshold = 12 / 1000,
     mpm_snapTolerance = 35 / 100, filterLow = 80, filterHigh = 2000\<rparr>"


definition mpm_piano :: mpm_preset where
  "mpm_piano = \<lparr>mpm_fftSize = 8192, mpmCutoff = 85 / 100, mpm_rmsThreshold = 4 / 1000,
     mpm_snapTolerance = 50 / 100, filterLow = 50, filterHigh = 2000\<rparr>"




definition SILENCE_GAP_FRAMES :: nat where
  "SILENCE_GAP_FRAMES = 4"

record mpm_session = session +
  filterNodes :: "handle list"
  silenceFrames :: nat


text \<open>Silence-gap tracking: \<^verbatim>\<open>if (rms < preset.rmsThreshold * 1.5) { ... } else { ... }\<close>.\<close>

definition silenceGap :: "mpm_preset \<Rightarrow> frame \<Rightarrow> mpm_session \<Rightarrow> mpm_session" where
  "silenceGap preset fr s =
     (if num_lt (getRms (buf fr)) (mpm_rmsThreshold preset * (3 / 2)) then
        let s' = s\<lparr>silenceFrames := silenceFrames s + 1\<rparr>
        in if SILENCE_GAP_FRAMES \<le> silenceFrames s' then s'\<lparr>lastFiredNote := None\<rparr> else s'
      else s\<lparr>silenceFrames := 0\<rparr>)"




text \<open>A frame is quiet when its RMS is below one and a half times the preset's
  threshold; a run of frames has no silence gap from a counter value \<open>k\<close> when the counter
  never reaches \<open>SILENCE_GAP_FRAMES\<close> in it.\<close>

definition quiet :: "mpm_preset \<Rightarrow> frame \<Rightarrow> bool" where
  "quiet preset fr = num_lt (getRms (buf fr)) (mpm_rmsThreshold preset * (3 / 2))"


subsection \<open>Auxiliary notions and sample inputs\<close>

text \<open>The error the \<^verbatim>\<open>try\<close> block of \<^verbatim>\<open>startMicListening\<close> raises, if any: that of the first
  browser call, in program order, that throws.\<close>

definition firstThrow :: "browser \<Rightarrow> exn option" where
  "firstThrow env =
     (case getUserMedia env of Throws err \<Rightarrow> Some err | Returns _ \<Rightarrow>
     (case newAudioContext env of Throws err \<Rightarrow> Some err | Returns _ \<Rightarrow>
     (case createAnalyser env of Throws err \<Rightarrow> Some err | Returns _ \<Rightarrow>
     (case createMediaStreamSource env of Throws err \<Rightarrow> Some err | Returns _ \<Rightarrow>
     (case connect env of Throws err \<Rightarrow> Some err | Returns _ \<Rightarrow>
     (case newDetector env of Throws err \<Rightarrow> Some err | Returns _ \<Rightarrow> None))))))"

text \<open>A browser in which every call succeeds, one that denies the microphone, and one
  that has no input device.\<close>

definition granting :: browser where
  "granting = \<lparr>getUserMedia = Returns 4, newAudioContext = Returns 1, createAnalyser = Returns 2,
     createMediaStreamSource = Returns 3, connect = Returns (), newDetector = Returns ()\<rparr>"

definition denying :: browser where
  "denying = granting\<lparr>getUserMedia :=
     Throws \<lparr>exn_name = ''NotAllowedError'', message = ''Permission denied''\<rparr>\<rparr>"

definition deviceless :: browser where
  "deviceless = granting\<lparr>getUserMedia :=
     Throws \<lparr>exn_name = ''NotFoundError'', message = ''Requested device not found''\<rparr>\<rparr>"

text \<open>A session in the middle of listening.\<close>

definition busy :: session where
  "busy = \<lparr>audioCtx = Some 1, analyser = Some 2, source = Some 3, stream = Some 4, rafId = Some 7,
     lastFiredNote = Some ''A'', lastFiredTime = 1700000000000, suppressUntil = 1700000000500,
     stableNote = Some \<lparr>name = ''C'', octave = 4\<rparr>, stableCount = 2\<rparr>"

text \<open>A frame whose buffer holds 32 periods of a unit sine wave, for which the pitch
  detector reports the frequency \<open>f\<close> and the MIDI number of \<open>f\<close> is computed without
  rounding error (as it is for 440 Hz and 880 Hz: \<^verbatim>\<open>Math.log2\<close> of 1 and of 2 is exact); and
  a frame of digital silence.\<close>

definition toneFrame :: "real \<Rightarrow> int \<Rightarrow> frame" where
  "toneFrame f t = \<lparr>buf = sineBuffer 4096 128, detected = Some f, midiFloat = exactMidi f,
     now = t, nextRaf = 1\<rparr>"


definition A4 :: noteobj where
  "A4 = \<lparr>name = ''A'', octave = 4\<rparr>"

definition A5 :: noteobj where
  "A5 = \<lparr>name = ''A'', octave = 5\<rparr>"

definition C4 :: noteobj where
  "C4 = \<lparr>name = ''C'', octave = 4\<rparr>"

text \<open>The equal-tempered frequency of middle C (MIDI 60), about 261.63 Hz.\<close>

definition middleC :: real where
  "middleC = 440 * 2 powr (- 3 / 4)"

text \<open>A frame of sufficient amplitude that yields the candidate A4 under the \<^verbatim>\<open>normal\<close>
  preset.\<close>

definition carriesA4 :: "frame \<Rightarrow> bool" where
  "carriesA4 f = (snd (candidate normal f) = Some A4
     \<and> num_ge (getRms (buf f)) (rmsThreshold normal))"

text \<open>A 440 Hz tone held over \<open>k\<close> frames, 16 ms apart, from time 1000 on.\<close>

definition sustained :: "nat \<Rightarrow> frame list" where
  "sustained k = map (\<lambda>i. toneFrame 440 (1000 + 16 * int i)) [0..<k]"

text \<open>The session the loop reaches from the initial state after two frames of a 440 Hz
  tone.\<close>

definition countingA4 :: session where
  "countingA4 = snd (run normal [toneFrame 440 1000, toneFrame 440 1016] released)"






text \<open>
  Notions for stating the gate's behaviour. A session tracks the letter \<open>X\<close> when its
  tracked note is named \<open>X\<close>; the support of \<open>X\<close> is the count held for it; \<open>held n s\<close> is
  the note tracked once the candidate \<open>n\<close> has been taken in. A frame is live when it is
  not before the suppression deadline, and the cooldowns are over for \<open>X\<close> at a frame
  when at least \<^verbatim>\<open>ANY_NOTE_COOLDOWN_MS\<close> have passed since the last firing and, if \<open>X\<close> was
  the note fired, more than \<^verbatim>\<open>SAME_NOTE_COOLDOWN_MS\<close>.
\<close>

definition tracking :: "string \<Rightarrow> 'a session_scheme \<Rightarrow> bool" where
  "tracking X s = (case stableNote s of None \<Rightarrow> False | Some m \<Rightarrow> name m = X)"

definition support :: "string \<Rightarrow> 'a session_scheme \<Rightarrow> nat" where
  "support X s = (case stableNote s of None \<Rightarrow> 0 | Some m \<Rightarrow> if name m = X then stableCount s else 0)"

definition held :: "noteobj \<Rightarrow> 'a session_scheme \<Rightarrow> noteobj" where
  "held n s = (case stableNote s of None \<Rightarrow> n | Some m \<Rightarrow> if name n = name m then m else n)"

definition live :: "'a session_scheme \<Rightarrow> frame \<Rightarrow> bool" where
  "live s fr = (suppressUntil s \<le> now fr)"

definition cooled :: "string \<Rightarrow> session \<Rightarrow> frame \<Rightarrow> bool" where
  "cooled X s fr =
     (ANY_NOTE_COOLDOWN_MS \<le> now fr - lastFiredTime s
      \<and> (lastFiredNote s = Some X \<longrightarrow> SAME_NOTE_COOLDOWN_MS < now fr - lastFiredTime s))"

section \<open>Properties of the note mapper\<close>

subsection \<open>Pitch classes\<close>

lemma js_rem_12: "js_rem m 12 = (if 0 \<le> m then m mod 12 else - ((- m) mod 12))"
  by (simp add: js_rem_def sgn_if)

lemma pitchClass_mod: "js_rem (js_rem m 12 + 12) 12 = m mod 12"
proof -
  have "(- m) mod 12 \<le> 12" using pos_mod_bound[of 12 "- m"] by linarith
  then have a: "0 \<le> js_rem m 12 + 12" unfolding js_rem_12
    by (simp split: if_splits)
  have "(- ((- m) mod 12)) mod 12 = m mod 12"
    by (metis mod_minus_eq minus_minus)
  then have b: "(js_rem m 12 + 12) mod 12 = m mod 12" unfolding js_rem_12
    by (simp split: if_splits)
  show ?thesis using a b by (simp add: js_rem_12[of "js_rem m 12 + 12"])
qed

lemma mod12_cases: "(m::int) mod 12 \<in> {0,1,2,3,4,5,6,7,8,9,10,11}"
proof -
  have "m mod 12 \<in> {0..<12}" by simp
  also have "{0..<12::int} = {0,1,2,3,4,5,6,7,8,9,10,11}" by auto arith
  finally show ?thesis .
qed

lemma noteName_mod: "noteName m = NOTE_NAMES ! nat (m mod 12)"
  by (simp add: noteName_def pitchClass_mod)

lemma natural_iff: "natural m \<longleftrightarrow> m mod 12 \<in> {0,2,4,5,7,9,11}"
  using mod12_cases[of m]
  by (auto simp add: natural_def noteName_mod NOTE_NAMES_def includesSharp_def)

subsection \<open>The search loop\<close>

lemma scan_cases:
  "scan mf b k = b \<or> (natural k \<and> scan mf b k = (Some k, Some \<bar>mf - real_of_int k\<bar>))"
  by (simp add: scan_def natural_def Let_def)

lemma scan_fold_cases:
  "foldl (scan mf) b xs = b \<or>
   (\<exists>k \<in> set xs. natural k \<and> foldl (scan mf) b xs = (Some k, Some \<bar>mf - real_of_int k\<bar>))"
proof (induction xs arbitrary: b)
  case Nil
  then show ?case by simp
next
  case (Cons x xs)
  from Cons.IH[of "scan mf b x"] scan_cases[of mf b x] show ?case
    by (auto simp del: One_nat_def)
qed

lemma scan_fold_keep:
  "\<forall>k \<in> set zs. natural k \<longrightarrow> d \<le> \<bar>mf - real_of_int k\<bar> \<Longrightarrow>
   foldl (scan mf) (Some n, Some d) zs = (Some n, Some d)"
  by (induction zs) (auto simp: scan_def natural_def Let_def)

text \<open>The loop keeps the first natural candidate of minimal distance.\<close>

lemma scan_fold_pick:
  assumes n: "natural n"
    and lo: "\<forall>k \<in> set ys. natural k \<longrightarrow> \<bar>mf - real_of_int n\<bar> < \<bar>mf - real_of_int k\<bar>"
    and hi: "\<forall>k \<in> set zs. natural k \<longrightarrow> \<bar>mf - real_of_int n\<bar> \<le> \<bar>mf - real_of_int k\<bar>"
  shows "foldl (scan mf) (None, None) (ys @ n # zs) = (Some n, Some \<bar>mf - real_of_int n\<bar>)"
proof -
  let ?d = "\<bar>mf - real_of_int n\<bar>"
  from scan_fold_cases[of mf "(None, None)" ys]
  have "scan mf (foldl (scan mf) (None, None) ys) n = (Some n, Some ?d)"
  proof
    assume "foldl (scan mf) (None, None) ys = (None, None)"
    then show ?thesis using n by (simp add: scan_def natural_def)
  next
    assume "\<exists>k\<in>set ys. natural k \<and> foldl (scan mf) (None, None) ys = (Some k, Some \<bar>mf - real_of_int k\<bar>)"
    then obtain k where "k \<in> set ys" "natural k"
      and e: "foldl (scan mf) (None, None) ys = (Some k, Some \<bar>mf - real_of_int k\<bar>)" by blast
    with lo have "?d < \<bar>mf - real_of_int k\<bar>" by blast
    then show ?thesis using n e by (simp add: scan_def natural_def)
  qed
  then show ?thesis using scan_fold_keep[OF hi] by simp
qed

lemma freqToNote_nearest:
  assumes range: "27 \<le> f" "f \<le> 4200"
    and n: "natural n"
    and near: "\<bar>mf - real_of_int n\<bar> \<le> 1 / 2"
    and tie: "\<not> (natural (n - 1) \<and> mf = real_of_int n - 1 / 2)"
    and tol: "\<bar>mf - real_of_int n\<bar> \<le> tol"
  shows "freqToNote f mf tol = Some \<lparr>name = noteName n, octave = \<lfloor>real_of_int n / 12\<rfloor> - 1\<rparr>"
proof -
  define c where "c = math_round mf"
  have nb: "real_of_int n - 1 / 2 \<le> mf" "mf \<le> real_of_int n + 1 / 2"
    using near by linarith+
  have c: "c = n \<or> c = n + 1"
  proof (cases "mf + 1 / 2 < real_of_int n + 1")
    case True
    moreover have "real_of_int n \<le> mf + 1 / 2"
      using nb by linarith
    ultimately have "\<lfloor>mf + 1 / 2\<rfloor> = n" by (intro floor_unique) simp_all
    then show ?thesis by (simp add: c_def math_round_def)
  next
    case False
    with nb have "mf + 1 / 2 = real_of_int (n + 1)"
      by simp
    then have "\<lfloor>mf + 1 / 2\<rfloor> = n + 1" by (simp only: floor_of_int)
    then show ?thesis by (simp add: c_def math_round_def)
  qed
  then have split: "[c - 2 .. c + 2] = [c - 2 .. n - 1] @ n # [n + 1 .. c + 2]"
    by (intro upto_split3) auto
  have lo: "\<forall>k \<in> set [c - 2 .. n - 1]. natural k \<longrightarrow> \<bar>mf - real_of_int n\<bar> < \<bar>mf - real_of_int k\<bar>"
  proof (intro ballI impI)
    fix k assume k: "k \<in> set [c - 2 .. n - 1]" and nk: "natural k"
    then have "k \<le> n - 1" by simp
    then consider "k = n - 1" | "k \<le> n - 2" by linarith
    then show "\<bar>mf - real_of_int n\<bar> < \<bar>mf - real_of_int k\<bar>"
    proof cases
      case 1
      with nk tie have "mf \<noteq> real_of_int n - 1 / 2" by simp
      with nb 1 show ?thesis by simp
    next
      case 2
      then have "real_of_int k \<le> real_of_int n - 2" by linarith
      with nb show ?thesis by linarith
    qed
  qed
  have hi: "\<forall>k \<in> set [n + 1 .. c + 2]. natural k \<longrightarrow> \<bar>mf - real_of_int n\<bar> \<le> \<bar>mf - real_of_int k\<bar>"
  proof (intro ballI impI)
    fix k assume k: "k \<in> set [n + 1 .. c + 2]"
    then have "real_of_int n + 1 \<le> real_of_int k" by simp
    with nb show "\<bar>mf - real_of_int n\<bar> \<le> \<bar>mf - real_of_int k\<bar>"
      by linarith
  qed
  have "foldl (scan mf) (None, None) [c - 2 .. c + 2] = (Some n, Some \<bar>mf - real_of_int n\<bar>)"
    unfolding split by (rule scan_fold_pick[OF n lo hi])
  then show ?thesis
    using range tol unfolding freqToNote_def Let_def c_def[symmetric]
    by simp
qed


text \<open>The range guard comes first: outside the range the result does not depend on the
  MIDI number (which the code does not compute there).\<close>

lemma freqToNote_outside: "f < 27 \<or> f > 4200 \<Longrightarrow> freqToNote f mf tol = None"
  by (simp add: freqToNote_def)

subsection \<open>Fractional MIDI numbers of some frequencies\<close>

lemma log2_ge:
  assumes "0 < x" and "2 ^ a \<le> x ^ k * 2 ^ b"
  shows "real a - real b \<le> real k * log 2 x"
proof -
  have "log 2 (2 ^ a) \<le> log 2 (x ^ k * 2 ^ b)"
    using assms by (intro log_mono) simp_all
  also have "\<dots> = real k * log 2 x + real b"
    using assms by (simp add: log_mult log_nat_power)
  finally show ?thesis by (simp add: log_nat_power)
qed

lemma log2_le:
  assumes "0 < x" and "x ^ k * 2 ^ b \<le> 2 ^ a"
  shows "real k * log 2 x \<le> real a - real b"
proof -
  have "log 2 (x ^ k * 2 ^ b) \<le> log 2 (2 ^ a)"
    using assms by (intro log_mono) simp_all
  moreover have "log 2 (x ^ k * 2 ^ b) = real k * log 2 x + real b"
    using assms by (simp add: log_mult log_nat_power)
  ultimately show ?thesis by (simp add: log_nat_power)
qed

lemma exactMidi_440: "exactMidi 440 = 69"
  by (simp add: exactMidi_def)

text \<open>4250 Hz is less than half a semitone above C8 (MIDI 108, 4186 Hz).\<close>

lemma exactMidi_4250: "\<bar>exactMidi 4250 - 108\<bar> \<le> 1 / 2"
proof -
  define L where "L = log 2 (4250 / 440)"
  have "77 \<le> 24 * L"
    unfolding L_def using log2_ge[of "4250 / 440" 77 24 0] by (simp add: power_divide)
  moreover have "24 * L \<le> 79"
    unfolding L_def using log2_le[of "4250 / 440" 24 0 79] by (simp add: power_divide)
  ultimately show ?thesis unfolding exactMidi_def L_def[symmetric] by linarith
qed




lemma noteName_69: "noteName 69 = ''A''"
  by (simp add: noteName_mod NOTE_NAMES_def)

lemma freqToNote_440:
  assumes "0 \<le> tol"
  shows "freqToNote 440 (exactMidi 440) tol = Some \<lparr>name = ''A'', octave = 4\<rparr>"
proof -
  have "natural 69" "\<not> natural 68" by (simp_all add: natural_iff)
  then have "freqToNote 440 69 tol = Some \<lparr>name = noteName 69, octave = \<lfloor>real_of_int 69 / 12\<rfloor> - 1\<rparr>"
    using assms by (intro freqToNote_nearest) simp_all
  then show ?thesis by (simp add: noteName_69 exactMidi_440)
qed

lemma tieFreq_range: "27 \<le> tieFreq" "tieFreq \<le> 4200"
  by (simp_all add: tieFreq_def)

text \<open>Of two natural notes at the same distance the loop keeps the lower one.\<close>

lemma freqToNote_tie: "freqToNote tieFreq (129 / 2) (1 / 2) = Some \<lparr>name = ''E'', octave = 4\<rparr>"
proof -
  have "natural 64" "\<not> natural 63" by (simp_all add: natural_iff)
  then have "freqToNote tieFreq (129 / 2) (1 / 2)
      = Some \<lparr>name = noteName 64, octave = \<lfloor>real_of_int 64 / 12\<rfloor> - 1\<rparr>"
    using tieFreq_range by (intro freqToNote_nearest) simp_all
  then show ?thesis by (simp add: noteName_mod NOTE_NAMES_def)
qed

text \<open>Rounding can decide the result. At the double 479.8234023727133 Hz the exact MIDI
  number is \<open>70.4999999999999976\<close>, more than 0.5 below B4 (MIDI 71), while the code
  computes exactly 70.5; with the tolerance 0.5 the result is B4.\<close>

lemma freqToNote_rounded:
  "freqToNote (4220571281502725 / 8796093022208) (141 / 2) (1 / 2) = Some \<lparr>name = ''B'', octave = 4\<rparr>"
proof -
  have "natural 71" "\<not> natural 70" by (simp_all add: natural_iff)
  then have "freqToNote (4220571281502725 / 8796093022208) (141 / 2) (1 / 2)
      = Some \<lparr>name = noteName 71, octave = \<lfloor>real_of_int 71 / 12\<rfloor> - 1\<rparr>"
    by (intro freqToNote_nearest) simp_all
  then show ?thesis by (simp add: noteName_mod NOTE_NAMES_def)
qed

subsection \<open>Claims about freqToNote\<close>

text \<open>
  C3, as the code has it. For every frequency \<open>f\<close> from 27 Hz to 4200 Hz whose fractional
  MIDI number, as the code computes it (the double \<open>mf\<close>), is within 0.5 of the MIDI number
  \<open>n\<close> of a natural note, and every snap tolerance of at least 0.5, \<^verbatim>\<open>freqToNote\<close> returns
  the note \<open>n\<close> with octave \<open>floor(n / 12) - 1\<close>; where the computed number lies exactly
  midway between two adjacent natural notes (E and F, or B and C), \<open>n\<close> is the lower of
  the two.
\<close>

theorem freqToNote_snaps:
  assumes "27 \<le> f" and "f \<le> 4200"
    and "natural n"
    and "\<bar>mf - real_of_int n\<bar> \<le> 1 / 2"
    and "\<not> (natural (n - 1) \<and> mf = real_of_int n - 1 / 2)"
    and "1 / 2 \<le> tol"
  shows "freqToNote f mf tol = Some \<lparr>name = noteName n, octave = \<lfloor>real_of_int n / 12\<rfloor> - 1\<rparr>"
  using assms by (intro freqToNote_nearest) simp_all

text \<open>The theorem at 440 Hz, where the computed MIDI number is exactly 69: A4.\<close>

theorem freqToNote_snaps_witness:
  "(27::real) \<le> 440 \<and> (440::real) \<le> 4200 \<and> natural 69
   \<and> \<bar>(69::real) - real_of_int 69\<bar> \<le> 1 / 2
   \<and> \<not> (natural (69 - 1) \<and> (69::real) = real_of_int 69 - 1 / 2)
   \<and> freqToNote 440 69 (1 / 2) = Some \<lparr>name = ''A'', octave = 4\<rparr>"
proof -
  have h: "natural 69" "\<bar>(69::real) - real_of_int 69\<bar> \<le> 1 / 2"
    "\<not> (natural (69 - 1) \<and> (69::real) = real_of_int 69 - 1 / 2)"
    by (simp_all add: natural_iff)
  from freqToNote_snaps[of 440 69 69 "1 / 2", OF _ _ h]
  have "freqToNote 440 69 (1 / 2) = Some \<lparr>name = noteName 69, octave = \<lfloor>real_of_int 69 / 12\<rfloor> - 1\<rparr>"
    by simp
  with h show ?thesis by (simp add: noteName_69)
qed

text \<open>
  C3 as it is stated fails in two places. 4250 Hz is within half a semitone of C8
  (MIDI 108), in exact arithmetic and as a double, yet it is above 4200 Hz and is rejected
  (for any value of the MIDI number, by \<open>freqToNote_outside\<close>). And at the double
  339.286381589747 Hz the computed MIDI number is exactly 64.5, within 0.5 of F4
  (MIDI 65), yet the result is E4.
\<close>

theorem freqToNote_snaps_counterexample:
  "natural 108 \<and> \<bar>exactMidi 4250 - 108\<bar> \<le> 1 / 2 \<and> \<bar>midi4250 - 108\<bar> \<le> 1 / 2
   \<and> freqToNote 4250 midi4250 (1 / 2) = None
   \<and> 27 \<le> tieFreq \<and> tieFreq \<le> 4200 \<and> natural 65 \<and> \<bar>129 / 2 - (65::real)\<bar> \<le> 1 / 2
   \<and> freqToNote tieFreq (129 / 2) (1 / 2) = Some \<lparr>name = ''E'', octave = 4\<rparr>
   \<and> noteName 65 = ''F''"
  using exactMidi_4250 freqToNote_tie tieFreq_range
  by (simp add: natural_iff freqToNote_def midi4250_def noteName_mod NOTE_NAMES_def)



section \<open>Properties of getRms\<close>

lemma getRms_sum_list:
  "foldl (\<lambda>sum x. sum + x * x) (a::real) xs = a + sum_list (map (\<lambda>x. x * x) xs)"
  by (induction xs arbitrary: a) (simp_all add: algebra_simps)

lemma getRms_replicate:
  "getRms (replicate n c) = (if n = 0 then NaN else Num \<bar>c\<bar>)"
proof (cases "n = 0")
  case True
  then show ?thesis by (simp add: getRms_def)
next
  case False
  have "sum_list (map (\<lambda>x. x * x) (replicate n c)) = real n * (c * c)"
    by (induction n) (simp_all add: algebra_simps)
  then have "getRms (replicate n c) = Num (sqrt (c * c))"
    using False by (simp add: getRms_def getRms_sum_list)
  then show ?thesis using False by simp
qed

lemma cos_telescope:
  "2 * sin (t / 2) * (\<Sum>i<n. cos (a + real i * t)) = sin (a + (real n - 1 / 2) * t) - sin (a - t / 2)"
proof (induction n)
  case 0
  then show ?case by simp
next
  case (Suc n)
  have "sin (a + (real (Suc n) - 1 / 2) * t) = sin ((a + real n * t) + t / 2)"
    by (simp add: algebra_simps)
  moreover have "sin (a + (real n - 1 / 2) * t) = sin ((a + real n * t) - t / 2)"
    by (simp add: algebra_simps)
  ultimately have "2 * sin (t / 2) * cos (a + real n * t)
      = sin (a + (real (Suc n) - 1 / 2) * t) - sin (a + (real n - 1 / 2) * t)"
    by (simp only: sin_add sin_diff) simp
  with Suc show ?case by (simp add: algebra_simps)
qed

lemma half_angle: "sin x * sin x = 1 / 2 - cos (2 * x) / 2" for x :: real
proof -
  have "cos (2 * x) = 1 - 2 * (sin x * sin x)"
    by (simp add: cos_double_sin power2_eq_square)
  then show ?thesis by (simp add: diff_divide_distrib)
qed

lemma step_angle:
  assumes "3 \<le> P"
  shows "0 < sin (2 * pi / real P)"
proof -
  have Ppos: "0 < real P" using assms by simp
  have "0 < 2 * pi / real P" using Ppos by simp
  moreover have "2 * pi / real P < pi"
  proof -
    have "2 * pi < pi * real P" using assms by simp
    then show ?thesis using Ppos by (simp add: field_simps)
  qed
  ultimately show ?thesis by (rule sin_gt_zero)
qed

text \<open>The squares of \<open>N\<close> samples of a sine wave sum to \<open>N / 2\<close> up to a term that does not
  grow with \<open>N\<close>, and that vanishes over whole periods.\<close>

lemma sin_sq_sum:
  "(\<Sum>i<N. sin (w * real i + ph) * sin (w * real i + ph))
     = real N / 2 - (\<Sum>i<N. cos (2 * ph + real i * (2 * w))) / 2"
proof -
  have "sin (w * real i + ph) * sin (w * real i + ph)
      = 1 / 2 - cos (2 * ph + real i * (2 * w)) / 2" for i
  proof -
    have "2 * ph + real i * (2 * w) = 2 * (w * real i + ph)" by (simp add: algebra_simps)
    then show ?thesis by (simp only: half_angle)
  qed
  then have "(\<Sum>i<N. sin (w * real i + ph) * sin (w * real i + ph))
      = (\<Sum>i<N. 1 / 2 - cos (2 * ph + real i * (2 * w)) / 2)" by simp
  also have "\<dots> = real N / 2 - (\<Sum>i<N. cos (2 * ph + real i * (2 * w))) / 2"
    by (simp add: sum_subtractf sum_divide_distrib)
  finally show ?thesis .
qed

lemma cos_sum_bound:
  assumes w: "sin w \<noteq> 0"
  shows "\<bar>\<Sum>i<N. cos (a + real i * (2 * w))\<bar> \<le> 1 / \<bar>sin w\<bar>"
proof -
  define S where "S = (\<Sum>i<N. cos (a + real i * (2 * w)))"
  have s: "0 < \<bar>sin w\<bar>" using w by simp
  have "2 * sin w * S = sin (a + (real N - 1 / 2) * (2 * w)) - sin (a - w)"
    unfolding S_def using cos_telescope[where t = "2 * w" and n = N and a = a] by simp
  then have "\<bar>2 * sin w * S\<bar> \<le> \<bar>sin (a + (real N - 1 / 2) * (2 * w))\<bar> + \<bar>sin (a - w)\<bar>"
    by (simp only: abs_triangle_ineq4)
  also have "\<dots> \<le> 1 + 1" by (intro add_mono abs_sin_le_one)
  finally have "2 * (\<bar>sin w\<bar> * \<bar>S\<bar>) \<le> 2" by (simp add: abs_mult)
  then have "\<bar>S\<bar> * \<bar>sin w\<bar> \<le> 1" by (simp add: mult.commute)
  then have "\<bar>S\<bar> \<le> 1 / \<bar>sin w\<bar>" using s by (simp add: pos_le_divide_eq)
  then show ?thesis unfolding S_def .
qed

lemma cos_sum_whole:
  assumes P: "3 \<le> P"
  shows "(\<Sum>i<k * P. cos (a + real i * (2 * (2 * pi / real P)))) = 0"
proof -
  define t where "t = 2 * (2 * pi / real P)"
  define n where "n = k * P"
  have Ppos: "0 < real P" using P by simp
  have h: "t / 2 = 2 * pi / real P" by (simp add: t_def)
  have s: "0 < sin (t / 2)" unfolding h by (rule step_angle[OF P])
  have "real n * t = real (4 * k) * pi" using Ppos by (simp add: t_def n_def)
  then have "a + (real n - 1 / 2) * t = (a - t / 2) + real (4 * k) * pi"
    by (simp add: algebra_simps)
  then have "sin (a + (real n - 1 / 2) * t) = sin ((a - t / 2) + real (4 * k) * pi)"
    by (simp only:)
  also have "\<dots> = sin (a - t / 2)"
    unfolding sin_add[of "a - t / 2"] sin_npi cos_npi by simp
  finally have "2 * sin (t / 2) * (\<Sum>i<n. cos (a + real i * t)) = 0"
    using cos_telescope[where t = t and n = n and a = a] by simp
  with s show ?thesis unfolding n_def t_def by simp
qed

text \<open>Samples within \<open>d\<close> of samples of magnitude at most 1: the squares differ by at most
  \<open>d * (2 + d)\<close>.\<close>

lemma sq_near:
  fixes x y d :: real
  assumes "\<bar>x - y\<bar> \<le> d" "\<bar>y\<bar> \<le> 1"
  shows "\<bar>x * x - y * y\<bar> \<le> d * (2 + d)"
proof -
  have d: "0 \<le> d" using assms(1) by linarith
  have "x * x - y * y = (x - y) * (x + y)" by (simp add: algebra_simps)
  then have "\<bar>x * x - y * y\<bar> = \<bar>x - y\<bar> * \<bar>x + y\<bar>" by (simp add: abs_mult)
  also have "\<dots> \<le> d * (2 + d)"
  proof (rule mult_mono)
    show "\<bar>x - y\<bar> \<le> d" by (rule assms(1))
    show "\<bar>x + y\<bar> \<le> 2 + d" using assms by linarith
    show "0 \<le> d" by (rule d)
    show "0 \<le> \<bar>x + y\<bar>" by simp
  qed
  finally show ?thesis .
qed

lemma nearSine_nth:
  "nearSine d w ph xs \<Longrightarrow> i < length xs \<Longrightarrow> \<bar>xs ! i - sin (w * real i + ph)\<bar> \<le> d"
  by (simp add: nearSine_def list_all_iff)

lemma sq_sum_nth: "sum_list (map (\<lambda>x. x * x) xs) = (\<Sum>i<length xs. xs ! i * xs ! i)" for xs :: "real list"
proof -
  have "sum_list (map (\<lambda>x. x * x) xs) = (\<Sum>i = 0..<length (map (\<lambda>x. x * x) xs). map (\<lambda>x. x * x) xs ! i)"
    by (rule sum_list_sum_nth)
  also have "\<dots> = (\<Sum>i<length xs. xs ! i * xs ! i)"
    by (simp add: lessThan_atLeast0)
  finally show ?thesis .
qed

text \<open>The mean square of a buffer near a sine wave.\<close>

lemma mean_square_near:
  assumes ne: "xs \<noteq> []" and near: "nearSine d w ph xs"
  shows "\<bar>sum_list (map (\<lambda>x. x * x) xs) / real (length xs)
            - (1 / 2 - (\<Sum>i<length xs. cos (2 * ph + real i * (2 * w))) / (2 * real (length xs)))\<bar>
         \<le> d * (2 + d)"
proof -
  define N where "N = length xs"
  define C where "C = (\<Sum>i<N. cos (2 * ph + real i * (2 * w)))"
  define s where "s = (\<lambda>i. sin (w * real i + ph))"
  have Npos: "0 < real N" using ne by (simp add: N_def)
  have each: "\<bar>xs ! i * xs ! i - s i * s i\<bar> \<le> d * (2 + d)" if "i < N" for i
    using nearSine_nth[OF near, of i] that unfolding s_def N_def by (intro sq_near) simp_all
  have "\<bar>(\<Sum>i<N. xs ! i * xs ! i) - (\<Sum>i<N. s i * s i)\<bar> = \<bar>\<Sum>i<N. (xs ! i * xs ! i - s i * s i)\<bar>"
    by (simp add: sum_subtractf)
  also have "\<dots> \<le> (\<Sum>i<N. \<bar>xs ! i * xs ! i - s i * s i\<bar>)" by (rule sum_abs)
  also have "\<dots> \<le> (\<Sum>i<N. d * (2 + d))" using each by (intro sum_mono) simp
  also have "\<dots> = real N * (d * (2 + d))" by simp
  finally have a: "\<bar>(\<Sum>i<N. xs ! i * xs ! i) - (\<Sum>i<N. s i * s i)\<bar> \<le> real N * (d * (2 + d))" .
  have b: "(\<Sum>i<N. s i * s i) = real N / 2 - C / 2"
    unfolding s_def C_def by (rule sin_sq_sum)
  have "(\<Sum>i<N. xs ! i * xs ! i) / real N - (1 / 2 - C / (2 * real N))
      = ((\<Sum>i<N. xs ! i * xs ! i) - (\<Sum>i<N. s i * s i)) / real N"
    using Npos unfolding b by (simp add: field_simps)
  then have "\<bar>(\<Sum>i<N. xs ! i * xs ! i) / real N - (1 / 2 - C / (2 * real N))\<bar>
      = \<bar>(\<Sum>i<N. xs ! i * xs ! i) - (\<Sum>i<N. s i * s i)\<bar> / real N"
    using Npos by simp
  also have "\<dots> \<le> real N * (d * (2 + d)) / real N"
    using a Npos by (intro divide_right_mono) simp_all
  also have "\<dots> = d * (2 + d)" using Npos by simp
  finally show ?thesis unfolding sq_sum_nth N_def[symmetric] C_def[symmetric] .
qed

lemma getRms_mean: "xs \<noteq> [] \<Longrightarrow> getRms xs = Num (sqrt (sum_list (map (\<lambda>x. x * x) xs) / real (length xs)))"
  by (simp add: getRms_def getRms_sum_list)

lemma mean_nonneg: "0 \<le> sum_list (map (\<lambda>x. x * x) xs) / real (length xs)" for xs :: "real list"
  by (intro divide_nonneg_nonneg sum_list_nonneg) auto

text \<open>A non-negative number whose square is near one half is near \<open>1 / sqrt 2\<close>.\<close>

lemma sqrt_near_half:
  assumes "0 \<le> m" "\<bar>m - 1 / 2\<bar> \<le> e"
  shows "\<bar>sqrt m - 1 / sqrt 2\<bar> \<le> 2 * e"
proof -
  define v where "v = sqrt m"
  define a where "a = 1 / sqrt (2::real)"
  have v: "0 \<le> v" "v * v = m" using assms(1) by (simp_all add: v_def)
  have a: "a * a = 1 / 2" by (simp add: a_def)
  have "sqrt 2 \<le> sqrt 4" by (simp only: real_sqrt_le_iff)
  then have "sqrt 2 \<le> 2" by simp
  then have a2: "1 / 2 \<le> a" by (simp add: a_def field_simps)
  have "\<bar>v - a\<bar> * (v + a) = \<bar>(v - a) * (v + a)\<bar>" using v a2 by (simp add: abs_mult)
  also have "(v - a) * (v + a) = m - 1 / 2" using v a by (simp add: algebra_simps)
  finally have e: "\<bar>v - a\<bar> * (v + a) \<le> e" using assms(2) by simp
  have "\<bar>v - a\<bar> * (1 / 2) \<le> \<bar>v - a\<bar> * (v + a)"
    using v a2 by (intro mult_left_mono) simp_all
  with e have "\<bar>v - a\<bar> * (1 / 2) \<le> e" by linarith
  then show ?thesis unfolding v_def a_def by simp
qed

lemma getRms_near_sine:
  assumes w: "sin w \<noteq> 0" and ne: "xs \<noteq> []" and d: "0 \<le> d" "d \<le> 1"
    and near: "nearSine d w ph xs"
  shows "\<exists>v. getRms xs = Num v
    \<and> \<bar>v - 1 / sqrt 2\<bar> \<le> 2 / (real (length xs) * \<bar>sin w\<bar>) + 6 * d"
proof -
  define N where "N = length xs"
  define C where "C = (\<Sum>i<N. cos (2 * ph + real i * (2 * w)))"
  define m where "m = sum_list (map (\<lambda>x. x * x) xs) / real N"
  define s where "s = \<bar>sin w\<bar>"
  have Npos: "0 < real N" using ne by (simp add: N_def)
  have s: "0 < s" unfolding s_def using w by simp
  have c: "\<bar>C\<bar> \<le> 1 / s" unfolding C_def s_def by (rule cos_sum_bound[OF w])
  have "\<bar>C / (2 * real N)\<bar> = \<bar>C\<bar> / (2 * real N)" using Npos by simp
  also have "\<dots> \<le> (1 / s) / (2 * real N)" using c Npos by (intro divide_right_mono) simp_all
  also have "\<dots> \<le> 1 / (real N * s)" using Npos s by (simp add: field_simps)
  finally have c': "\<bar>C / (2 * real N)\<bar> \<le> 1 / (real N * s)" .
  have "d * (2 + d) \<le> d * 3" using d by (intro mult_left_mono) simp_all
  moreover have "\<bar>m - (1 / 2 - C / (2 * real N))\<bar> \<le> d * (2 + d)"
    unfolding m_def N_def C_def by (rule mean_square_near[OF ne near])
  ultimately have "\<bar>m - 1 / 2\<bar> \<le> 1 / (real N * s) + 3 * d" using c' by linarith
  moreover have "0 \<le> m" unfolding m_def N_def by (rule mean_nonneg)
  ultimately have "\<bar>sqrt m - 1 / sqrt 2\<bar> \<le> 2 * (1 / (real N * s) + 3 * d)"
    by (intro sqrt_near_half)
  then have "\<bar>sqrt m - 1 / sqrt 2\<bar> \<le> 2 / (real N * s) + 6 * d" by simp
  moreover have "getRms xs = Num (sqrt m)" unfolding m_def N_def by (rule getRms_mean[OF ne])
  ultimately show ?thesis unfolding N_def s_def by blast
qed

lemma getRms_near_whole:
  assumes P: "3 \<le> P" and k: "1 \<le> k" and len: "length xs = k * P"
    and d: "0 \<le> d" "d \<le> 1" and near: "nearSine d (2 * pi / real P) ph xs"
  shows "\<exists>v. getRms xs = Num v \<and> \<bar>v - 1 / sqrt 2\<bar> \<le> 6 * d"
proof -
  define m where "m = sum_list (map (\<lambda>x. x * x) xs) / real (length xs)"
  have ne: "xs \<noteq> []" using P k len by auto
  have z: "(\<Sum>i<length xs. cos (2 * ph + real i * (2 * (2 * pi / real P)))) = 0"
    unfolding len by (rule cos_sum_whole[OF P])
  have "d * (2 + d) \<le> d * 3" using d by (intro mult_left_mono) simp_all
  moreover have "\<bar>m - 1 / 2\<bar> \<le> d * (2 + d)"
    using mean_square_near[OF ne near] unfolding z m_def by simp
  ultimately have "\<bar>m - 1 / 2\<bar> \<le> 3 * d" by linarith
  moreover have "0 \<le> m" unfolding m_def by (rule mean_nonneg)
  ultimately have "\<bar>sqrt m - 1 / sqrt 2\<bar> \<le> 2 * (3 * d)" by (intro sqrt_near_half)
  moreover have "getRms xs = Num (sqrt m)" unfolding m_def by (rule getRms_mean[OF ne])
  ultimately show ?thesis by auto
qed

lemma nearSine_sineBuffer: "nearSine 0 (2 * pi / real P) 0 (sineBuffer N P)"
  by (simp add: nearSine_def sineBuffer_def list_all_iff)

lemma getRms_sine:
  assumes "3 \<le> P" "1 \<le> k"
  shows "getRms (sineBuffer (k * P) P) = Num (1 / sqrt 2)"
proof -
  have "length (sineBuffer (k * P) P) = k * P" by (simp add: sineBuffer_def)
  from getRms_near_whole[OF assms this _ _ nearSine_sineBuffer]
  show ?thesis by auto
qed

text \<open>
  C7, as the code has it. \<^verbatim>\<open>getRms\<close> returns exactly 0 for an all-zero buffer and 0.5 for a
  buffer whose every sample is 0.5, of any length but zero; for the empty buffer it
  returns NaN. For a buffer of a unit-amplitude sine wave it returns approximately
  \<open>1 / sqrt 2\<close>: for \<open>N\<close> samples of a wave of any phase and any angular step \<open>w\<close> per
  sample with \<open>sin w \<noteq> 0\<close>, each sample stored with an error of at most \<open>d\<close>, the result
  differs from \<open>1 / sqrt 2\<close> by at most \<open>2 / (N |sin w|) + 6 d\<close>; and by at most 0.005
  (the tolerance of the unit test) when the buffer holds a whole number of periods of at
  least three samples and \<open>d\<close> is at most \<open>1 / 1200\<close>. (Where \<open>sin w = 0\<close> the samples of
  the wave all have the same magnitude, as in a constant buffer.) Both bounds leave a
  margin over what holds in real arithmetic.
\<close>

theorem getRms_values:
  "getRms (replicate n 0) = (if n = 0 then NaN else Num 0)
   \<and> getRms (replicate n (1 / 2)) = (if n = 0 then NaN else Num (1 / 2))
   \<and> (sin w \<noteq> 0 \<and> xs \<noteq> [] \<and> 0 \<le> d \<and> d \<le> 1 \<and> nearSine d w ph xs \<longrightarrow>
        (\<exists>v. getRms xs = Num v
           \<and> \<bar>v - 1 / sqrt 2\<bar> \<le> 2 / (real (length xs) * \<bar>sin w\<bar>) + 6 * d))
   \<and> (3 \<le> P \<and> 1 \<le> k \<and> length xs = k * P \<and> 0 \<le> d \<and> d \<le> 1 / 1200
       \<and> nearSine d (2 * pi / real P) ph xs \<longrightarrow>
        (\<exists>v. getRms xs = Num v \<and> \<bar>v - 1 / sqrt 2\<bar> \<le> 1 / 200))"
proof (intro conjI impI)
  show "getRms (replicate n 0) = (if n = 0 then NaN else Num 0)"
    by (simp add: getRms_replicate)
  show "getRms (replicate n (1 / 2)) = (if n = 0 then NaN else Num (1 / 2))"
    by (simp add: getRms_replicate)
next
  assume "sin w \<noteq> 0 \<and> xs \<noteq> [] \<and> 0 \<le> d \<and> d \<le> 1 \<and> nearSine d w ph xs"
  then show "\<exists>v. getRms xs = Num v
      \<and> \<bar>v - 1 / sqrt 2\<bar> \<le> 2 / (real (length xs) * \<bar>sin w\<bar>) + 6 * d"
    by (intro getRms_near_sine[of w xs d ph]) simp_all
next
  assume a: "3 \<le> P \<and> 1 \<le> k \<and> length xs = k * P \<and> 0 \<le> d \<and> d \<le> 1 / 1200
       \<and> nearSine d (2 * pi / real P) ph xs"
  then have "\<exists>v. getRms xs = Num v \<and> \<bar>v - 1 / sqrt 2\<bar> \<le> 6 * d"
    by (intro getRms_near_whole[of P k xs d ph]) simp_all
  then obtain v where "getRms xs = Num v" "\<bar>v - 1 / sqrt 2\<bar> \<le> 6 * d" by blast
  moreover have "6 * d \<le> 1 / 200" using a by simp
  ultimately show "\<exists>v. getRms xs = Num v \<and> \<bar>v - 1 / sqrt 2\<bar> \<le> 1 / 200"
    by (intro exI[of _ v]) simp
qed

text \<open>The theorem at the buffers of the unit tests (1024 samples; the sine wave has period
  128, eight whole periods), and at 1000 samples of that wave.\<close>

theorem getRms_values_witness:
  "getRms (replicate 1024 0) = Num 0
   \<and> getRms (replicate 1024 (1 / 2)) = Num (1 / 2)
   \<and> (3::nat) \<le> 128 \<and> (1::nat) \<le> 8 \<and> length (sineBuffer 1024 128) = 8 * 128
   \<and> nearSine 0 (2 * pi / 128) 0 (sineBuffer 1024 128)
   \<and> (\<exists>v. getRms (sineBuffer 1024 128) = Num v \<and> \<bar>v - 1 / sqrt 2\<bar> \<le> 1 / 200)
   \<and> sin (2 * pi / 128) \<noteq> 0
   \<and> sineBuffer 1000 128 \<noteq> [] \<and> nearSine 0 (2 * pi / 128) 0 (sineBuffer 1000 128)
   \<and> (\<exists>v. getRms (sineBuffer 1000 128) = Num v
         \<and> \<bar>v - 1 / sqrt 2\<bar> \<le> 2 / (1000 * \<bar>sin (2 * pi / 128)\<bar>))"
proof -
  have l: "length (sineBuffer 1024 128) = 8 * 128" "length (sineBuffer 1000 128) = 1000"
    by (simp_all add: sineBuffer_def)
  have ne: "sineBuffer 1000 128 \<noteq> []"
    using l(2) by (simp del: length_0_conv add: length_0_conv[symmetric])
  have s: "sin (2 * pi / 128) \<noteq> 0" using step_angle[of 128] by simp
  have ns: "nearSine 0 (2 * pi / 128) 0 (sineBuffer 1024 128)"
    "nearSine 0 (2 * pi / 128) 0 (sineBuffer 1000 128)"
    using nearSine_sineBuffer[of 128 1024] nearSine_sineBuffer[of 128 1000] by simp_all
  have a: "getRms (replicate 1024 0) = Num 0 \<and> getRms (replicate 1024 (1 / 2)) = Num (1 / 2)"
    using getRms_values[of 1024] by simp
  have b: "\<exists>v. getRms (sineBuffer 1024 128) = Num v \<and> \<bar>v - 1 / sqrt 2\<bar> \<le> 1 / 200"
    using getRms_values[where P = 128 and k = 8 and xs = "sineBuffer 1024 128" and d = 0 and ph = 0]
      l(1) ns(1) by simp
  have c: "\<exists>v. getRms (sineBuffer 1000 128) = Num v
         \<and> \<bar>v - 1 / sqrt 2\<bar> \<le> 2 / (1000 * \<bar>sin (2 * pi / 128)\<bar>)"
    using getRms_values[where w = "2 * pi / 128" and xs = "sineBuffer 1000 128" and d = 0 and ph = 0]
      l(2) ne ns(2) s by simp
  show ?thesis using a b c l(1) ne ns s by simp
qed

text \<open>C7 as it is stated fails at length zero: the empty buffer is all-zero, and its RMS
  is \<^verbatim>\<open>Math.sqrt(0 / 0)\<close>, which is NaN and not 0.\<close>

theorem getRms_values_counterexample:
  "replicate 0 (0::real) = [] \<and> getRms [] = NaN \<and> getRms [] \<noteq> Num 0"
  by (simp add: getRms_def)

section \<open>Starting and stopping\<close>

lemma stop_state:
  "snd (stopMicListening s) = released\<lparr>rafId := (if rafId s = Some 0 then Some 0 else None)\<rparr>"
  by (cases s) (simp add: stopMicListening_def released_def Let_def split: option.splits)

text \<open>
  C8. \<^verbatim>\<open>stopMicListening\<close> with no session active makes no browser call and leaves the
  state as it is, and so does the second of two calls in a row; after a call every
  module variable has its initial value. (Animation frame ids are positive, so \<^verbatim>\<open>rafId\<close>
  is never the falsy number 0.)
\<close>

theorem stopMicListening_releases:
  "stopMicListening released = ([], released)
   \<and> (rafId s \<noteq> Some 0 \<longrightarrow>
        snd (stopMicListening s) = released
        \<and> stopMicListening (snd (stopMicListening s)) = ([], released))"
proof -
  have a: "stopMicListening released = ([], released)"
    by (simp add: stopMicListening_def released_def)
  have b: "snd (stopMicListening s) = released" if "rafId s \<noteq> Some 0"
    using that by (simp add: stop_state released_def)
  show ?thesis using a b by simp
qed

text \<open>The theorem at a session that is listening: the first call releases everything,
  the second does nothing.\<close>

theorem stopMicListening_releases_witness:
  "rafId busy \<noteq> Some 0
   \<and> stopMicListening busy = ([CancelAnimationFrame 7, Disconnect 3, CloseContext 1, StopTracks 4], released)
   \<and> stopMicListening (snd (stopMicListening busy)) = ([], released)"
proof -
  have h: "rafId busy \<noteq> Some 0" by (simp add: busy_def)
  have "fst (stopMicListening busy) = [CancelAnimationFrame 7, Disconnect 3, CloseContext 1, StopTracks 4]"
    by (simp add: stopMicListening_def busy_def)
  with h stopMicListening_releases[of busy] show ?thesis
    by (simp add: prod_eq_iff)
qed

lemma start_result:
  "fst (startMicListening env mode fr s) =
     (case firstThrow env of None \<Rightarrow> Returns None | Some err \<Rightarrow> catch err)"
  by (simp add: startMicListening_def firstThrow_def Let_def split: outcome.splits prod.splits)

lemma error_not_denied: "''Microphone error: '' @ m \<noteq> DENIED"
  by (simp add: DENIED_def)

text \<open>
  C9. The promise \<^verbatim>\<open>startMicListening\<close> returns never rejects. It resolves with \<^verbatim>\<open>null\<close> when
  no call of the \<^verbatim>\<open>try\<close> block throws, with the denial message when the error thrown is
  a \<^verbatim>\<open>NotAllowedError\<close>, and for every other error with \<^verbatim>\<open>Microphone error: \<close> followed by
  the error's message, a string that differs from the denial message.
\<close>

theorem startMicListening_returns:
  "(\<exists>r. fst (startMicListening env mode fr s) = Returns r)
   \<and> (firstThrow env = None \<longrightarrow> fst (startMicListening env mode fr s) = Returns None)
   \<and> (firstThrow env = Some err \<and> exn_name err = ''NotAllowedError'' \<longrightarrow>
        fst (startMicListening env mode fr s) = Returns (Some DENIED))
   \<and> (firstThrow env = Some err \<and> exn_name err \<noteq> ''NotAllowedError'' \<longrightarrow>
        fst (startMicListening env mode fr s) = Returns (Some (''Microphone error: '' @ message err))
        \<and> ''Microphone error: '' @ message err \<noteq> DENIED)"
  using error_not_denied[of "message err"]
  by (simp add: start_result catch_def split: option.splits)

text \<open>The theorem at a browser that grants the microphone, at one that denies it and at
  one without an input device.\<close>

theorem startMicListening_returns_witness:
  "firstThrow granting = None
   \<and> fst (startMicListening granting None (toneFrame 440 1000) released) = Returns None
   \<and> firstThrow denying = Some \<lparr>exn_name = ''NotAllowedError'', message = ''Permission denied''\<rparr>
   \<and> fst (startMicListening denying None (toneFrame 440 1000) released) = Returns (Some DENIED)
   \<and> firstThrow deviceless = Some \<lparr>exn_name = ''NotFoundError'', message = ''Requested device not found''\<rparr>
   \<and> fst (startMicListening deviceless None (toneFrame 440 1000) released)
       = Returns (Some ''Microphone error: Requested device not found'')"
proof -
  have g: "firstThrow granting = None"
    by (simp add: firstThrow_def granting_def)
  have d: "firstThrow denying = Some \<lparr>exn_name = ''NotAllowedError'', message = ''Permission denied''\<rparr>"
    by (simp add: firstThrow_def denying_def)
  have n: "firstThrow deviceless = Some \<lparr>exn_name = ''NotFoundError'', message = ''Requested device not found''\<rparr>"
    by (simp add: firstThrow_def deviceless_def)
  show ?thesis
    using g d n
      startMicListening_returns[of granting None "toneFrame 440 1000" released]
      startMicListening_returns[of denying None "toneFrame 440 1000" released
        "\<lparr>exn_name = ''NotAllowedError'', message = ''Permission denied''\<rparr>"]
      startMicListening_returns[of deviceless None "toneFrame 440 1000" released
        "\<lparr>exn_name = ''NotFoundError'', message = ''Requested device not found''\<rparr>"]
    by simp
qed

section \<open>Properties of the stability gate\<close>

subsection \<open>Calls and fields\<close>

lemma fired_append: "fired (a @ b) = fired a @ fired b"
  by (simp add: fired_def)

lemma fired_simps: "fired [] = []" "fired (OnNote a b # cs) = OnNote a b # fired cs"
  "fired (OnHeard a f # cs) = fired cs"
  by (simp_all add: fired_def)

lemma fired_heard: "fired (heard c) = []"
  by (simp add: fired_def heard_def split: option.splits)

lemma fired_fire: "fired (fst (fire t s)) = fst (fire t s)"
  by (simp add: fired_def fire_def Let_def split: option.splits)

lemma track_fields:
  "suppressUntil (track c s) = suppressUntil s"
  "lastFiredNote (track c s) = lastFiredNote s"
  "lastFiredTime (track c s) = lastFiredTime s"
  by (simp_all add: track_def split: option.splits)

lemma track_Some:
  "stableNote (track (Some n) s) =
     (case stableNote s of None \<Rightarrow> Some n | Some m \<Rightarrow> if name n = name m then Some m else Some n)"
  "stableCount (track (Some n) s) =
     (case stableNote s of None \<Rightarrow> 1 | Some m \<Rightarrow> if name n = name m then stableCount s + 1 else 1)"
  by (simp_all add: track_def split: option.splits)


lemma loop_fired:
  "fired (fst (loop p fr s)) =
     (if now fr < suppressUntil s then [] else fst (fire (now fr) (track (snd (candidate p fr)) s)))"
  using fired_fire[of "now fr" "track (snd (candidate p fr)) s"]
  by (auto simp add: loop_def Let_def track_fields fired_heard fired_append split: prod.splits)

lemma loop_suppressed:
  assumes "now fr < suppressUntil s"
  shows "stableNote (snd (loop p fr s)) = None" "stableCount (snd (loop p fr s)) = 0"
    "fired (fst (loop p fr s)) = []"
  using assms by (simp_all add: loop_def Let_def track_fields fired_heard)

lemma loop_live:
  assumes "suppressUntil s \<le> now fr"
  shows "loop p fr s =
    (heard (candidate p fr) @ fst (fire (now fr) (track (snd (candidate p fr)) s)),
     (snd (fire (now fr) (track (snd (candidate p fr)) s)))\<lparr>rafId := Some (nextRaf fr)\<rparr>)"
  using assms by (simp add: loop_def Let_def track_fields split: prod.splits)

lemma fire_below: "stableCount s < STABLE_FRAMES \<Longrightarrow> fire t s = ([], s)"
  by (simp add: fire_def split: option.splits)

lemma fire_idle: "stableNote s = None \<Longrightarrow> fire t s = ([], s)"
  by (simp add: fire_def)

lemma fire_blocked:
  assumes "stableNote s = Some m" "lastFiredNote s = Some (name m)"
    "t - lastFiredTime s \<le> SAME_NOTE_COOLDOWN_MS"
  shows "fire t s = ([], s)"
  using assms by (simp add: fire_def Let_def)

lemma fire_cool:
  assumes "stableNote s = Some m" "STABLE_FRAMES \<le> stableCount s"
    "ANY_NOTE_COOLDOWN_MS \<le> t - lastFiredTime s"
    "lastFiredNote s = Some (name m) \<longrightarrow> SAME_NOTE_COOLDOWN_MS < t - lastFiredTime s"
  shows "fire t s = ([OnNote (name m) (octave m)],
     s\<lparr>lastFiredNote := Some (name m), lastFiredTime := t, stableNote := None, stableCount := 0\<rparr>)"
  using assms by (auto simp add: fire_def Let_def)

text \<open>A frame that fires leaves the gate idle.\<close>

lemma fire_resets:
  "fst (fire t s) \<noteq> [] \<Longrightarrow> stableNote (snd (fire t s)) = None \<and> stableCount (snd (fire t s)) = 0"
  by (auto simp add: fire_def Let_def split: option.splits if_splits)

lemma loop_resets:
  assumes "fired (fst (loop p fr s)) \<noteq> []"
  shows "stableNote (snd (loop p fr s)) = None \<and> stableCount (snd (loop p fr s)) = 0"
proof (cases "now fr < suppressUntil s")
  case True
  then show ?thesis by (simp add: loop_suppressed)
next
  case False
  then have l: "suppressUntil s \<le> now fr" by simp
  from assms False have "fst (fire (now fr) (track (snd (candidate p fr)) s)) \<noteq> []"
    by (simp add: loop_fired)
  then show ?thesis using fire_resets by (simp add: loop_live[OF l])
qed

lemma run_two: "run p [f1, f2] s =
  (fst (loop p f1 s) @ fst (loop p f2 (snd (loop p f1 s))), snd (loop p f2 (snd (loop p f1 s))))"
  by (simp add: Let_def split: prod.splits)

lemma run_three: "run p [f1, f2, f3] s =
  (fst (loop p f1 s) @ fst (loop p f2 (snd (loop p f1 s)))
     @ fst (loop p f3 (snd (loop p f2 (snd (loop p f1 s))))),
   snd (loop p f3 (snd (loop p f2 (snd (loop p f1 s))))))"
  by (simp add: Let_def split: prod.splits)

lemma run_append:
  "run p (xs @ ys) s =
     (fst (run p xs s) @ fst (run p ys (snd (run p xs s))), snd (run p ys (snd (run p xs s))))"
  by (induction xs arbitrary: s) (simp_all add: Let_def split: prod.splits)

subsection \<open>One frame\<close>

lemma step_count:
  assumes c: "snd (candidate p fr) = Some n" and l: "live s fr"
    and k: "stableCount (track (Some n) s) < STABLE_FRAMES"
  shows "fired (fst (loop p fr s)) = []"
    and "stableNote (snd (loop p fr s)) = stableNote (track (Some n) s)"
    and "stableCount (snd (loop p fr s)) = stableCount (track (Some n) s)"
    and "lastFiredNote (snd (loop p fr s)) = lastFiredNote s"
    and "lastFiredTime (snd (loop p fr s)) = lastFiredTime s"
    and "suppressUntil (snd (loop p fr s)) = suppressUntil s"
  using assms
  by (simp_all add: loop_live live_def fire_below fired_append fired_heard fired_simps track_fields)

lemma step_fire:
  assumes c: "snd (candidate p fr) = Some n" and l: "live s fr"
    and m: "stableNote (track (Some n) s) = Some m"
    and k: "STABLE_FRAMES \<le> stableCount (track (Some n) s)"
    and cool: "cooled (name m) s fr"
  shows "fired (fst (loop p fr s)) = [OnNote (name m) (octave m)]"
    and "stableNote (snd (loop p fr s)) = None"
    and "stableCount (snd (loop p fr s)) = 0"
    and "lastFiredNote (snd (loop p fr s)) = Some (name m)"
    and "lastFiredTime (snd (loop p fr s)) = now fr"
    and "suppressUntil (snd (loop p fr s)) = suppressUntil s"
proof -
  have "fire (now fr) (track (Some n) s) = ([OnNote (name m) (octave m)],
     (track (Some n) s)\<lparr>lastFiredNote := Some (name m), lastFiredTime := now fr,
        stableNote := None, stableCount := 0\<rparr>)"
    using m k cool by (intro fire_cool) (simp_all add: cooled_def track_fields)
  then show "fired (fst (loop p fr s)) = [OnNote (name m) (octave m)]"
    and "stableNote (snd (loop p fr s)) = None"
    and "stableCount (snd (loop p fr s)) = 0"
    and "lastFiredNote (snd (loop p fr s)) = Some (name m)"
    and "lastFiredTime (snd (loop p fr s)) = now fr"
    and "suppressUntil (snd (loop p fr s)) = suppressUntil s"
    using c l by (simp_all add: loop_live live_def fired_append fired_heard fired_simps track_fields)
qed

lemma support_track:
  "stableCount (track (Some n) s) = support (name n) s + 1"
  "tracking (name n) (track (Some n) s)"
  by (simp_all add: track_Some support_def tracking_def split: option.splits)

lemma support_idle: "stableNote s = None \<Longrightarrow> support X s = 0"
  by (simp add: support_def)

lemma support_tracking: "tracking X s \<Longrightarrow> support X s = stableCount s"
  by (auto simp add: support_def tracking_def split: option.splits)

lemma support_other: "\<not> tracking X s \<Longrightarrow> support X s = 0"
  by (auto simp add: support_def tracking_def split: option.splits)

lemma held_track: "stableNote (track (Some n) s) = Some (held n s)"
  by (simp add: track_Some held_def split: option.splits)

lemma held_name: "name (held n s) = name n"
  by (simp add: held_def split: option.splits)

lemma held_other: "\<not> tracking (name n) s \<Longrightarrow> held n s = n"
  by (auto simp add: held_def tracking_def split: option.splits)

text \<open>A live frame whose candidate does not yet reach the threshold adds one to the
  support of its letter and changes nothing else of the gate.\<close>

lemma grow:
  assumes c: "snd (candidate p fr) = Some n" and l: "live s fr"
    and k: "support (name n) s + 1 < STABLE_FRAMES"
  shows "fired (fst (loop p fr s)) = []"
    and "support (name n) (snd (loop p fr s)) = support (name n) s + 1"
    and "lastFiredNote (snd (loop p fr s)) = lastFiredNote s"
    and "lastFiredTime (snd (loop p fr s)) = lastFiredTime s"
    and "suppressUntil (snd (loop p fr s)) = suppressUntil s"
    and "held n (snd (loop p fr s)) = held n s"
proof -
  have k': "stableCount (track (Some n) s) < STABLE_FRAMES"
    using k by (simp add: support_track)
  note st = step_count[OF c l k']
  show "fired (fst (loop p fr s)) = []" by (rule st)
  have sn: "stableNote (snd (loop p fr s)) = Some (held n s)"
    using st(2) by (simp add: held_track)
  then have "tracking (name n) (snd (loop p fr s))"
    by (simp add: tracking_def held_name)
  then show "support (name n) (snd (loop p fr s)) = support (name n) s + 1"
    using st(3) by (simp add: support_tracking support_track)
  show "held n (snd (loop p fr s)) = held n s"
    using sn by (simp add: held_def[of n "snd (loop p fr s)"] held_name)
  show "lastFiredNote (snd (loop p fr s)) = lastFiredNote s"
    and "lastFiredTime (snd (loop p fr s)) = lastFiredTime s"
    and "suppressUntil (snd (loop p fr s)) = suppressUntil s"
    by (rule st)+
qed

text \<open>A live frame whose candidate reaches the threshold with the cooldowns over fires the
  tracked note and resets the gate.\<close>

lemma burst:
  assumes c: "snd (candidate p fr) = Some n" and l: "live s fr"
    and k: "STABLE_FRAMES \<le> support (name n) s + 1"
    and cool: "cooled (name n) s fr"
  shows "fired (fst (loop p fr s)) = [OnNote (name n) (octave (held n s))]"
    and "stableNote (snd (loop p fr s)) = None"
    and "stableCount (snd (loop p fr s)) = 0"
    and "suppressUntil (snd (loop p fr s)) = suppressUntil s"
    and "lastFiredNote (snd (loop p fr s)) = Some (name n)"
    and "lastFiredTime (snd (loop p fr s)) = now fr"
proof -
  have k': "STABLE_FRAMES \<le> stableCount (track (Some n) s)"
    using k by (simp add: support_track)
  have cool': "cooled (name (held n s)) s fr" using cool by (simp add: held_name)
  note st = step_fire[OF c l held_track k' cool']
  show "fired (fst (loop p fr s)) = [OnNote (name n) (octave (held n s))]"
    using st(1) by (simp add: held_name)
  show "lastFiredNote (snd (loop p fr s)) = Some (name n)"
    using st(4) by (simp add: held_name)
  show "stableNote (snd (loop p fr s)) = None"
    and "stableCount (snd (loop p fr s)) = 0"
    and "suppressUntil (snd (loop p fr s)) = suppressUntil s"
    and "lastFiredTime (snd (loop p fr s)) = now fr"
    by (rule st)+
qed

text \<open>Any frame, suppressed or not, whose candidate stays below the threshold.\<close>

lemma calm:
  assumes c: "snd (candidate p fr) = Some n"
    and k: "support (name n) s + 1 < STABLE_FRAMES"
  shows "fired (fst (loop p fr s)) = []"
    and "support (name n) (snd (loop p fr s)) \<le> support (name n) s + 1"
    and "stableNote (snd (loop p fr s)) = None \<or> tracking (name n) (snd (loop p fr s))"
proof -
  have k': "stableCount (track (Some n) s) < STABLE_FRAMES"
    using k by (simp add: support_track)
  show "fired (fst (loop p fr s)) = []"
    using c k' by (simp add: loop_fired fire_below)
  have "support (name n) (snd (loop p fr s)) \<le> support (name n) s + 1
      \<and> (stableNote (snd (loop p fr s)) = None \<or> tracking (name n) (snd (loop p fr s)))"
  proof (cases "now fr < suppressUntil s")
    case True
    then have "stableNote (snd (loop p fr s)) = None" by (simp add: loop_suppressed)
    then show ?thesis by (simp add: support_idle)
  next
    case False
    then have l: "live s fr" by (simp add: live_def)
    note g = grow[OF c l k]
    have "0 < support (name n) (snd (loop p fr s))" using g(2) by simp
    then have "tracking (name n) (snd (loop p fr s))"
      by (auto simp add: support_def tracking_def split: option.splits if_splits)
    then show ?thesis using g(2) by simp
  qed
  then show "support (name n) (snd (loop p fr s)) \<le> support (name n) s + 1"
    and "stableNote (snd (loop p fr s)) = None \<or> tracking (name n) (snd (loop p fr s))"
    by simp_all
qed

text \<open>A candidate of another letter takes over with a count of one.\<close>

lemma switch:
  assumes c: "snd (candidate p fr) = Some m"
    and t: "stableNote s = None \<or> tracking X s"
    and d: "name m \<noteq> X"
  shows "fired (fst (loop p fr s)) = []"
    and "stableCount (snd (loop p fr s)) \<le> 1"
    and "\<not> tracking X (snd (loop p fr s))"
proof -
  have z: "support (name m) s = 0"
    using t d by (auto simp add: support_def tracking_def split: option.splits)
  then have k: "support (name m) s + 1 < STABLE_FRAMES" by (simp add: STABLE_FRAMES_def)
  note q = calm[OF c k]
  show "fired (fst (loop p fr s)) = []" by (rule q)
  from q(3) show "\<not> tracking X (snd (loop p fr s))"
    using d by (auto simp add: tracking_def split: option.splits)
  from q(3) show "stableCount (snd (loop p fr s)) \<le> 1"
  proof
    assume "stableNote (snd (loop p fr s)) = None"
    then show ?thesis
      using c by (cases "now fr < suppressUntil s")
        (auto simp add: loop_suppressed loop_def Let_def track_fields track_def fire_def
          split: option.splits if_splits prod.splits)
  next
    assume "tracking (name m) (snd (loop p fr s))"
    then show ?thesis using q(2) z by (simp add: support_tracking)
  qed
qed

subsection \<open>Runs of frames\<close>

lemma run_Cons:
  "run p (fr # frs) s =
     (fst (loop p fr s) @ fst (run p frs (snd (loop p fr s))), snd (run p frs (snd (loop p fr s))))"
  by (simp add: Let_def split: prod.splits)

text \<open>Three frames with one candidate, outside the suppression window and with the
  cooldowns over: the note fires once, in the frame that brings its support to three.\<close>

lemma three_same:
  assumes c: "snd (candidate p f1) = Some n" "snd (candidate p f2) = Some n"
      "snd (candidate p f3) = Some n"
    and l: "live s f1" "live s f2" "live s f3"
    and cool: "cooled (name n) s f1" "cooled (name n) s f2" "cooled (name n) s f3"
  shows "fired (fst (run p [f1, f2, f3] s)) = [OnNote (name n) (octave (held n s))]"
    and "support (name n) s = 0 \<Longrightarrow>
           fired (fst (run p [f1, f2] s)) = []
           \<and> stableNote (snd (run p [f1, f2, f3] s)) = None
           \<and> stableCount (snd (run p [f1, f2, f3] s)) = 0
           \<and> lastFiredNote (snd (run p [f1, f2, f3] s)) = Some (name n)
           \<and> lastFiredTime (snd (run p [f1, f2, f3] s)) = now f3
           \<and> suppressUntil (snd (run p [f1, f2, f3] s)) = suppressUntil s"
proof -
  define s1 where "s1 = snd (loop p f1 s)"
  define s2 where "s2 = snd (loop p f2 s1)"
  have S: "STABLE_FRAMES = 3" by (simp add: STABLE_FRAMES_def)
  have zero: "fired (fst (run p [f1, f2, f3] s)) = [OnNote (name n) (octave (held n s))]
           \<and> fired (fst (run p [f1, f2] s)) = []
           \<and> stableNote (snd (run p [f1, f2, f3] s)) = None
           \<and> stableCount (snd (run p [f1, f2, f3] s)) = 0
           \<and> lastFiredNote (snd (run p [f1, f2, f3] s)) = Some (name n)
           \<and> lastFiredTime (snd (run p [f1, f2, f3] s)) = now f3
           \<and> suppressUntil (snd (run p [f1, f2, f3] s)) = suppressUntil s"
    if z: "support (name n) s = 0"
  proof -
    have g1: "support (name n) s + 1 < STABLE_FRAMES" using z by (simp add: S)
    note a = grow[OF c(1) l(1) g1, folded s1_def]
    have g2: "support (name n) s1 + 1 < STABLE_FRAMES" using a(2) z by (simp add: S)
    have l2: "live s1 f2" using l(2) a(5) by (simp add: live_def)
    note b = grow[OF c(2) l2 g2, folded s2_def]
    have g3: "STABLE_FRAMES \<le> support (name n) s2 + 1"
      using b(2) a(2) z by (simp add: S)
    have l3: "live s2 f3" using l(3) a(5) b(5) by (simp add: live_def)
    have c3: "cooled (name n) s2 f3" using cool(3) a(3,4) b(3,4) by (simp add: cooled_def)
    note d = burst[OF c(3) l3 g3 c3]
    show ?thesis
      using a(1,5,6) b(1,5,6) d
      unfolding run_three run_two s1_def[symmetric] s2_def[symmetric]
      by (simp add: fired_append)
  qed
  then show "support (name n) s = 0 \<Longrightarrow>
           fired (fst (run p [f1, f2] s)) = []
           \<and> stableNote (snd (run p [f1, f2, f3] s)) = None
           \<and> stableCount (snd (run p [f1, f2, f3] s)) = 0
           \<and> lastFiredNote (snd (run p [f1, f2, f3] s)) = Some (name n)
           \<and> lastFiredTime (snd (run p [f1, f2, f3] s)) = now f3
           \<and> suppressUntil (snd (run p [f1, f2, f3] s)) = suppressUntil s" by simp
  consider "support (name n) s = 0" | (one) "support (name n) s = 1" | (more) "2 \<le> support (name n) s"
    by linarith
  then show "fired (fst (run p [f1, f2, f3] s)) = [OnNote (name n) (octave (held n s))]"
  proof cases
    case 1
    then show ?thesis using zero by simp
  next
    case one
    have g1: "support (name n) s + 1 < STABLE_FRAMES" using one by (simp add: S)
    note a = grow[OF c(1) l(1) g1, folded s1_def]
    have g2: "STABLE_FRAMES \<le> support (name n) s1 + 1" using a(2) one by (simp add: S)
    have l2: "live s1 f2" using l(2) a(5) by (simp add: live_def)
    have c2: "cooled (name n) s1 f2" using cool(2) a(3,4) by (simp add: cooled_def)
    note b = burst[OF c(2) l2 g2 c2, folded s2_def]
    have g3: "support (name n) s2 + 1 < STABLE_FRAMES"
      using b(2) by (simp add: S support_idle)
    have l3: "live s2 f3" using l(3) a(5) b(4) by (simp add: live_def)
    note d = grow[OF c(3) l3 g3]
    show ?thesis
      using a(1,6) b(1) d(1)
      unfolding run_three s1_def[symmetric] s2_def[symmetric]
      by (simp add: fired_append)
  next
    case more
    have g1: "STABLE_FRAMES \<le> support (name n) s + 1" using more by (simp add: S)
    note a = burst[OF c(1) l(1) g1 cool(1), folded s1_def]
    have g2: "support (name n) s1 + 1 < STABLE_FRAMES"
      using a(2) by (simp add: S support_idle)
    have l2: "live s1 f2" using l(2) a(4) by (simp add: live_def)
    note b = grow[OF c(2) l2 g2, folded s2_def]
    have g3: "support (name n) s2 + 1 < STABLE_FRAMES"
      using b(2) a(2) by (simp add: S support_idle)
    have l3: "live s2 f3" using l(3) a(4) b(5) by (simp add: live_def)
    note d = grow[OF c(3) l3 g3]
    show ?thesis
      using a(1) b(1) d(1)
      unfolding run_three s1_def[symmetric] s2_def[symmetric]
      by (simp add: fired_append)
  qed
qed

text \<open>A candidate tracked for one frame, or for two, and then followed by a candidate of
  another letter.\<close>

lemma brief_one:
  assumes z: "\<not> tracking (name n) s"
    and c: "snd (candidate p f1) = Some n" "snd (candidate p g) = Some m"
    and d: "name m \<noteq> name n"
  shows "fired (fst (run p [f1, g] s)) = []"
    and "\<not> tracking (name n) (snd (run p [f1, g] s))"
proof -
  define s1 where "s1 = snd (loop p f1 s)"
  have k1: "support (name n) s + 1 < STABLE_FRAMES"
    using z by (simp add: support_other STABLE_FRAMES_def)
  note a = calm[OF c(1) k1, folded s1_def]
  note b = switch[OF c(2) a(3) d]
  show "fired (fst (run p [f1, g] s)) = []"
    and "\<not> tracking (name n) (snd (run p [f1, g] s))"
    using a(1) b(1,3) unfolding run_two s1_def[symmetric] by (simp_all add: fired_append)
qed

lemma brief_two:
  assumes z: "\<not> tracking (name n) s"
    and c: "snd (candidate p f1) = Some n" "snd (candidate p f2) = Some n"
      "snd (candidate p g) = Some m"
    and d: "name m \<noteq> name n"
  shows "fired (fst (run p [f1, f2, g] s)) = []"
    and "\<not> tracking (name n) (snd (run p [f1, f2, g] s))"
proof -
  define s1 where "s1 = snd (loop p f1 s)"
  define s2 where "s2 = snd (loop p f2 s1)"
  have z0: "support (name n) s = 0" using z by (simp add: support_other)
  then have k1: "support (name n) s + 1 < STABLE_FRAMES" by (simp add: STABLE_FRAMES_def)
  note a = calm[OF c(1) k1, folded s1_def]
  have k2: "support (name n) s1 + 1 < STABLE_FRAMES"
    using a(2) z0 by (simp add: STABLE_FRAMES_def)
  note b = calm[OF c(2) k2, folded s2_def]
  note e = switch[OF c(3) b(3) d]
  show "fired (fst (run p [f1, f2, g] s)) = []"
    and "\<not> tracking (name n) (snd (run p [f1, f2, g] s))"
    using a(1) b(1) e(1,3) unfolding run_three s1_def[symmetric] s2_def[symmetric]
    by (simp_all add: fired_append)
qed

text \<open>While the last fired letter is the only one presented and the same-note cooldown
  has not passed, nothing fires.\<close>

lemma hold_step:
  assumes f: "lastFiredNote s = Some X"
    and t: "stableNote s = None \<or> tracking X s"
    and c: "case snd (candidate p fr) of None \<Rightarrow> True | Some n \<Rightarrow> name n = X"
    and w: "now fr - lastFiredTime s \<le> SAME_NOTE_COOLDOWN_MS"
  shows "fired (fst (loop p fr s)) = []"
    and "lastFiredNote (snd (loop p fr s)) = Some X"
    and "lastFiredTime (snd (loop p fr s)) = lastFiredTime s"
    and "stableNote (snd (loop p fr s)) = None \<or> tracking X (snd (loop p fr s))"
proof -
  define s1 where "s1 = track (snd (candidate p fr)) s"
  have t1: "stableNote s1 = None \<or> tracking X s1"
    using t c unfolding s1_def
    by (auto simp add: track_def tracking_def split: option.splits)
  have q: "fire (now fr) s1 = ([], s1)"
  proof (cases "stableNote s1")
    case None
    then show ?thesis by (rule fire_idle)
  next
    case (Some m)
    with t1 have "name m = X" by (simp add: tracking_def)
    then show ?thesis
      using Some f w by (intro fire_blocked[of _ m]) (simp_all add: s1_def track_fields)
  qed
  show "fired (fst (loop p fr s)) = []"
    using q by (simp add: loop_fired s1_def)
  show "lastFiredNote (snd (loop p fr s)) = Some X"
    and "lastFiredTime (snd (loop p fr s)) = lastFiredTime s"
    and "stableNote (snd (loop p fr s)) = None \<or> tracking X (snd (loop p fr s))"
    using q t1 f unfolding loop_def Let_def s1_def[symmetric]
    by (simp_all add: tracking_def s1_def track_fields)
qed

lemma hold_run:
  assumes "lastFiredNote s = Some X"
    and "stableNote s = None \<or> tracking X s"
    and "\<forall>fr \<in> set frs. (case snd (candidate p fr) of None \<Rightarrow> True | Some n \<Rightarrow> name n = X)
           \<and> now fr - lastFiredTime s \<le> SAME_NOTE_COOLDOWN_MS"
  shows "fired (fst (run p frs s)) = []"
  using assms
proof (induction frs arbitrary: s)
  case Nil
  then show ?case by (simp add: fired_simps)
next
  case (Cons fr frs)
  have c: "case snd (candidate p fr) of None \<Rightarrow> True | Some n \<Rightarrow> name n = X"
    and w: "now fr - lastFiredTime s \<le> SAME_NOTE_COOLDOWN_MS"
    using Cons.prems(3) by simp_all
  note h = hold_step[OF Cons.prems(1,2) c w]
  have "fired (fst (run p frs (snd (loop p fr s)))) = []"
    using Cons.prems(3) h by (intro Cons.IH) simp_all
  then show ?case using h(1) unfolding run_Cons by (simp add: fired_append)
qed

subsection \<open>Sample frames\<close>

lemma sqrt2_half: "1 / 2 \<le> 1 / sqrt 2"
proof -
  have "sqrt 2 \<le> sqrt 4" by (simp only: real_sqrt_le_iff)
  then have "sqrt 2 \<le> 2" by simp
  then show ?thesis by (simp add: field_simps)
qed

lemma rms_tone: "getRms (buf (toneFrame f t)) = Num (1 / sqrt 2)"
  using getRms_sine[of 128 32] by (simp add: toneFrame_def)

lemma candidate_tone:
  assumes "0 < f" "rmsThreshold p \<le> 1 / 2"
  shows "candidate p (toneFrame f t) = (f, freqToNote f (exactMidi f) (snapTolerance p))"
proof -
  have "rmsThreshold p \<le> 1 / sqrt 2" using assms(2) sqrt2_half by linarith
  then have "num_ge (getRms (buf (toneFrame f t))) (rmsThreshold p)"
    by (simp only: rms_tone num_ge.simps)
  moreover have "detected (toneFrame f t) = Some f" "midiFloat (toneFrame f t) = exactMidi f"
    by (simp_all add: toneFrame_def)
  ultimately show ?thesis using assms(1) by (simp add: candidate_def Let_def)
qed

lemma exactMidi_880: "exactMidi 880 = 81"
proof -
  have "log 2 (880 / 440) = 1" by simp
  then show ?thesis unfolding exactMidi_def by simp
qed

lemma freqToNote_880:
  assumes "0 \<le> tol"
  shows "freqToNote 880 (exactMidi 880) tol = Some A5"
proof -
  have "natural 81" "\<not> natural 80" by (simp_all add: natural_iff)
  then have "freqToNote 880 81 tol = Some \<lparr>name = noteName 81, octave = \<lfloor>real_of_int 81 / 12\<rfloor> - 1\<rparr>"
    using assms by (intro freqToNote_nearest) simp_all
  then show ?thesis by (simp add: noteName_mod NOTE_NAMES_def A5_def exactMidi_880)
qed

lemma exactMidi_middleC: "exactMidi middleC = 60"
  by (simp add: exactMidi_def middleC_def)

lemma middleC_range: "27 \<le> middleC" "middleC \<le> 4200" "0 < middleC"
proof -
  have "2 powr (- 1) \<le> 2 powr (- 3 / 4 :: real)" by (intro powr_mono) simp_all
  then have h: "1 / 2 \<le> 2 powr (- 3 / 4 :: real)" by (simp add: powr_minus)
  then show "27 \<le> middleC" "0 < middleC" by (simp_all add: middleC_def)
  have "2 powr (- 3 / 4 :: real) \<le> 2 powr 0" by (intro powr_mono) simp_all
  then show "middleC \<le> 4200" by (simp add: middleC_def)
qed

lemma freqToNote_middleC:
  assumes "0 \<le> tol"
  shows "freqToNote middleC (exactMidi middleC) tol = Some C4"
proof -
  have "natural 60" by (simp add: natural_iff)
  then have "freqToNote middleC 60 tol = Some \<lparr>name = noteName 60, octave = \<lfloor>real_of_int 60 / 12\<rfloor> - 1\<rparr>"
    using assms middleC_range by (intro freqToNote_nearest) simp_all
  then show ?thesis by (simp add: noteName_mod NOTE_NAMES_def C4_def exactMidi_middleC)
qed

lemma candidate_440: "candidate normal (toneFrame 440 t) = (440, Some A4)"
  by (simp add: candidate_tone normal_def freqToNote_440 A4_def)

lemma candidate_880: "candidate normal (toneFrame 880 t) = (880, Some A5)"
  by (simp add: candidate_tone normal_def freqToNote_880)

lemma candidate_middleC: "candidate normal (toneFrame middleC t) = (middleC, Some C4)"
  using middleC_range(3) by (simp add: candidate_tone normal_def freqToNote_middleC)

lemma now_tone: "now (toneFrame f t) = t" "nextRaf (toneFrame f t) = 1"
  by (simp_all add: toneFrame_def)

lemmas gate_eval = loop_def track_def fire_def heard_def Let_def now_tone
  candidate_440 candidate_880 candidate_middleC
  fired_simps STABLE_FRAMES_def ANY_NOTE_COOLDOWN_MS_def SAME_NOTE_COOLDOWN_MS_def
  A4_def A5_def C4_def released_def

section \<open>Claims about the stability gate\<close>

text \<open>
  C6. In every frame processed while the current time is earlier than the suppression
  deadline, the tracked note is cleared, the support count is set to 0 and \<^verbatim>\<open>onNote\<close> is not
  invoked; \<^verbatim>\<open>suppressMicListening(durationMs)\<close> sets the deadline to the time of the call
  plus \<^verbatim>\<open>durationMs\<close>.
\<close>

theorem suppression_window:
  "(now fr < suppressUntil s \<longrightarrow>
      stableNote (snd (loop preset fr s)) = None
      \<and> stableCount (snd (loop preset fr s)) = 0
      \<and> fired (fst (loop preset fr s)) = [])
   \<and> suppressUntil (suppressMicListening durationMs clock s) = clock + durationMs
   \<and> (now fr < clock + durationMs \<longrightarrow>
      stableNote (snd (loop preset fr (suppressMicListening durationMs clock s))) = None
      \<and> stableCount (snd (loop preset fr (suppressMicListening durationMs clock s))) = 0
      \<and> fired (fst (loop preset fr (suppressMicListening durationMs clock s))) = [])"
  by (simp add: loop_suppressed suppressMicListening_def)

text \<open>The theorem at a frame 400 ms before the deadline of a listening session, and at a
  frame after a call of \<^verbatim>\<open>suppressMicListening(4000)\<close>.\<close>

theorem suppression_window_witness:
  "now (toneFrame 440 1700000000100) < suppressUntil busy
   \<and> stableNote (snd (loop normal (toneFrame 440 1700000000100) busy)) = None
   \<and> stableCount (snd (loop normal (toneFrame 440 1700000000100) busy)) = 0
   \<and> fired (fst (loop normal (toneFrame 440 1700000000100) busy)) = []
   \<and> now (toneFrame 440 1016) < 900 + 4000
   \<and> stableNote (snd (loop normal (toneFrame 440 1016) (suppressMicListening 4000 900 released))) = None
   \<and> stableCount (snd (loop normal (toneFrame 440 1016) (suppressMicListening 4000 900 released))) = 0
   \<and> fired (fst (loop normal (toneFrame 440 1016) (suppressMicListening 4000 900 released))) = []"
proof -
  have a: "now (toneFrame 440 1700000000100) < suppressUntil busy"
    by (simp add: now_tone busy_def)
  have b: "now (toneFrame 440 1016) < 900 + 4000" by (simp add: now_tone)
  show ?thesis
    using a b suppression_window[of "toneFrame 440 1700000000100" busy normal 0 0]
      suppression_window[of "toneFrame 440 1016" released normal 4000 900]
    by simp
qed

text \<open>A frame that fires records the letter and the time and leaves the gate idle.\<close>

lemma fire_fires:
  assumes "fst (fire t s) = [OnNote X oct]"
  shows "lastFiredNote (snd (fire t s)) = Some X" and "lastFiredTime (snd (fire t s)) = t"
    and "stableNote (snd (fire t s)) = None" and "stableCount (snd (fire t s)) = 0"
  using assms by (auto simp add: fire_def Let_def split: option.splits if_splits)

lemma loop_fires:
  assumes "fired (fst (loop p fr s)) = [OnNote X oct]"
  shows "lastFiredNote (snd (loop p fr s)) = Some X" and "lastFiredTime (snd (loop p fr s)) = now fr"
    and "stableNote (snd (loop p fr s)) = None" and "stableCount (snd (loop p fr s)) = 0"
proof -
  have l: "suppressUntil s \<le> now fr"
    using assms by (cases "now fr < suppressUntil s") (simp_all add: loop_suppressed)
  then have "fst (fire (now fr) (track (snd (candidate p fr)) s)) = [OnNote X oct]"
    using assms by (simp add: loop_fired)
  note f = fire_fires[OF this]
  show "lastFiredNote (snd (loop p fr s)) = Some X" and "lastFiredTime (snd (loop p fr s)) = now fr"
    and "stableNote (snd (loop p fr s)) = None" and "stableCount (snd (loop p fr s)) = 0"
    using f by (simp_all add: loop_live[OF l])
qed

lemma countingA4_eq:
  "countingA4 = released\<lparr>rafId := Some 1, stableNote := Some A4, stableCount := 2\<rparr>"
  by (simp add: countingA4_def gate_eval)

text \<open>
  C10. Tracking and the same-note cooldown compare note letters only. A candidate with the
  letter of the tracked note, in whatever octave, adds one to the count and leaves the
  tracked note (and its octave) as it is; a firing in that frame emits the tracked note's
  octave; and once a frame has fired a note, the frames that follow it and present that
  letter, in whatever octave, fire nothing as long as no more than
  \<^verbatim>\<open>SAME_NOTE_COOLDOWN_MS\<close> have passed since the firing frame.
\<close>

theorem name_only_matching:
  "(stableNote s = Some n1 \<and> name n2 = name n1 \<longrightarrow>
      track (Some n2) s = s\<lparr>stableCount := stableCount s + 1\<rparr>)
   \<and> (stableNote s = Some n1 \<and> name n2 = name n1 \<and> snd (candidate preset fr) = Some n2 \<longrightarrow>
      fired (fst (loop preset fr s)) = []
      \<or> fired (fst (loop preset fr s)) = [OnNote (name n1) (octave n1)])
   \<and> (fired (fst (loop preset fr s)) = [OnNote X oct]
       \<and> (\<forall>f \<in> set frs. (case snd (candidate preset f) of None \<Rightarrow> True | Some m \<Rightarrow> name m = X)
             \<and> now f - now fr \<le> SAME_NOTE_COOLDOWN_MS) \<longrightarrow>
      fired (fst (run preset frs (snd (loop preset fr s)))) = [])"
proof (intro conjI impI)
  assume "stableNote s = Some n1 \<and> name n2 = name n1"
  then show "track (Some n2) s = s\<lparr>stableCount := stableCount s + 1\<rparr>"
    by (simp add: track_def)
next
  assume a: "stableNote s = Some n1 \<and> name n2 = name n1 \<and> snd (candidate preset fr) = Some n2"
  then have "stableNote (track (Some n2) s) = Some n1" by (simp add: track_Some)
  then have "fst (fire (now fr) (track (Some n2) s)) = []
      \<or> fst (fire (now fr) (track (Some n2) s)) = [OnNote (name n1) (octave n1)]"
    by (simp add: fire_def Let_def)
  then show "fired (fst (loop preset fr s)) = []
      \<or> fired (fst (loop preset fr s)) = [OnNote (name n1) (octave n1)]"
    using a by (simp add: loop_fired)
next
  assume a: "fired (fst (loop preset fr s)) = [OnNote X oct]
       \<and> (\<forall>f \<in> set frs. (case snd (candidate preset f) of None \<Rightarrow> True | Some m \<Rightarrow> name m = X)
             \<and> now f - now fr \<le> SAME_NOTE_COOLDOWN_MS)"
  then have f: "fired (fst (loop preset fr s)) = [OnNote X oct]" by simp
  note st = loop_fires[OF f]
  show "fired (fst (run preset frs (snd (loop preset fr s)))) = []"
    using a st by (intro hold_run[of _ X]) simp_all
qed

text \<open>The theorem after two frames of A4 from the initial state: A5 arriving as the third
  frame fires A4; and when A4 arrives as the third frame and fires, four frames of A5 after
  it, up to 64 ms later, fire nothing.\<close>

theorem name_only_matching_witness:
  "stableNote countingA4 = Some A4 \<and> name A5 = name A4 \<and> octave A5 \<noteq> octave A4
   \<and> track (Some A5) countingA4 = countingA4\<lparr>stableCount := 3\<rparr>
   \<and> snd (candidate normal (toneFrame 880 1032)) = Some A5
   \<and> fired (fst (loop normal (toneFrame 880 1032) countingA4)) = [OnNote ''A'' 4]
   \<and> fired (fst (loop normal (toneFrame 440 1032) countingA4)) = [OnNote ''A'' 4]
   \<and> now (toneFrame 880 1096) - now (toneFrame 440 1032) \<le> SAME_NOTE_COOLDOWN_MS
   \<and> fired (fst (run normal
        [toneFrame 880 1048, toneFrame 880 1064, toneFrame 880 1080, toneFrame 880 1096]
        (snd (loop normal (toneFrame 440 1032) countingA4)))) = []"
proof -
  have h1: "stableNote countingA4 = Some A4 \<and> name A5 = name A4"
    by (simp add: countingA4_eq A4_def A5_def)
  have h2: "snd (candidate normal (toneFrame 880 t)) = Some A5" for t
    by (simp add: candidate_880)
  have e: "fired (fst (loop normal (toneFrame 880 1032) countingA4)) = [OnNote ''A'' 4]"
    by (simp add: gate_eval countingA4_eq)
  have f: "fired (fst (loop normal (toneFrame 440 1032) countingA4)) = [OnNote ''A'' 4]"
    by (simp add: gate_eval countingA4_eq)
  have w: "\<forall>f \<in> set [toneFrame 880 1048, toneFrame 880 1064, toneFrame 880 1080, toneFrame 880 1096].
      (case snd (candidate normal f) of None \<Rightarrow> True | Some m \<Rightarrow> name m = ''A'')
      \<and> now f - now (toneFrame 440 1032) \<le> SAME_NOTE_COOLDOWN_MS"
    by (simp add: h2 A5_def now_tone SAME_NOTE_COOLDOWN_MS_def)
  from h1 name_only_matching[of countingA4 A4 A5 normal "toneFrame 880 1032"]
  have t: "track (Some A5) countingA4 = countingA4\<lparr>stableCount := 3\<rparr>"
    by (simp add: countingA4_eq)
  from f w name_only_matching[of countingA4 A4 A5 normal "toneFrame 440 1032" "''A''" 4
      "[toneFrame 880 1048, toneFrame 880 1064, toneFrame 880 1080, toneFrame 880 1096]"]
  have b: "fired (fst (run normal
        [toneFrame 880 1048, toneFrame 880 1064, toneFrame 880 1080, toneFrame 880 1096]
        (snd (loop normal (toneFrame 440 1032) countingA4)))) = []"
    by blast
  show ?thesis using h1 h2 e f t b
    by (simp add: A4_def A5_def now_tone SAME_NOTE_COOLDOWN_MS_def)
qed

text \<open>
  C1, as the code has it, for \<^verbatim>\<open>STABLE_FRAMES = 3\<close>. Three consecutive frames carrying the
  same note candidate, each outside the suppression window and with both cooldowns over,
  cause exactly one \<^verbatim>\<open>onNote\<close> invocation; when the gate was not already tracking that
  letter, the invocation comes with the third frame, carries the candidate's octave and
  leaves the gate idle. Any frame that fires leaves the gate idle. And a candidate that
  is tracked for only one or two consecutive frames before a candidate of another
  \<^emph>\<open>letter\<close> appears causes no \<^verbatim>\<open>onNote\<close> invocation and is no longer tracked.
\<close>

theorem stability_threshold:
  "(snd (candidate p f1) = Some n \<and> snd (candidate p f2) = Some n \<and> snd (candidate p f3) = Some n
     \<and> live s f1 \<and> live s f2 \<and> live s f3
     \<and> cooled (name n) s f1 \<and> cooled (name n) s f2 \<and> cooled (name n) s f3 \<longrightarrow>
       (\<exists>oct. fired (fst (run p [f1, f2, f3] s)) = [OnNote (name n) oct])
       \<and> (\<not> tracking (name n) s \<longrightarrow>
            fired (fst (run p [f1, f2] s)) = []
            \<and> fired (fst (run p [f1, f2, f3] s)) = [OnNote (name n) (octave n)]
            \<and> stableNote (snd (run p [f1, f2, f3] s)) = None
            \<and> stableCount (snd (run p [f1, f2, f3] s)) = 0))
   \<and> (fired (fst (loop p fr s)) \<noteq> [] \<longrightarrow>
        stableNote (snd (loop p fr s)) = None \<and> stableCount (snd (loop p fr s)) = 0)
   \<and> (\<not> tracking (name n) s \<and> snd (candidate p f1) = Some n \<and> snd (candidate p f2) = Some n
      \<and> snd (candidate p g) = Some m \<and> name m \<noteq> name n \<longrightarrow>
        fired (fst (run p [f1, g] s)) = [] \<and> \<not> tracking (name n) (snd (run p [f1, g] s))
        \<and> fired (fst (run p [f1, f2, g] s)) = []
        \<and> \<not> tracking (name n) (snd (run p [f1, f2, g] s)))"
proof (intro conjI impI)
  assume a: "snd (candidate p f1) = Some n \<and> snd (candidate p f2) = Some n
     \<and> snd (candidate p f3) = Some n
     \<and> live s f1 \<and> live s f2 \<and> live s f3
     \<and> cooled (name n) s f1 \<and> cooled (name n) s f2 \<and> cooled (name n) s f3"
  then have t: "fired (fst (run p [f1, f2, f3] s)) = [OnNote (name n) (octave (held n s))]"
    by (intro three_same) simp_all
  then show "\<exists>oct. fired (fst (run p [f1, f2, f3] s)) = [OnNote (name n) oct]" by blast
  assume z: "\<not> tracking (name n) s"
  then have z0: "support (name n) s = 0" by (simp add: support_other)
  from a have "fired (fst (run p [f1, f2] s)) = []
           \<and> stableNote (snd (run p [f1, f2, f3] s)) = None
           \<and> stableCount (snd (run p [f1, f2, f3] s)) = 0
           \<and> lastFiredNote (snd (run p [f1, f2, f3] s)) = Some (name n)
           \<and> lastFiredTime (snd (run p [f1, f2, f3] s)) = now f3
           \<and> suppressUntil (snd (run p [f1, f2, f3] s)) = suppressUntil s"
    by (intro three_same(2)[OF _ _ _ _ _ _ _ _ _ z0]) simp_all
  then show "fired (fst (run p [f1, f2] s)) = []"
    and "stableNote (snd (run p [f1, f2, f3] s)) = None"
    and "stableCount (snd (run p [f1, f2, f3] s)) = 0" by simp_all
  show "fired (fst (run p [f1, f2, f3] s)) = [OnNote (name n) (octave n)]"
    using t z by (simp add: held_other)
next
  assume "fired (fst (loop p fr s)) \<noteq> []"
  then have "stableNote (snd (loop p fr s)) = None \<and> stableCount (snd (loop p fr s)) = 0"
    by (rule loop_resets)
  then show "stableNote (snd (loop p fr s)) = None" and "stableCount (snd (loop p fr s)) = 0"
    by simp_all
next
  assume a: "\<not> tracking (name n) s \<and> snd (candidate p f1) = Some n \<and> snd (candidate p f2) = Some n
      \<and> snd (candidate p g) = Some m \<and> name m \<noteq> name n"
  then show "fired (fst (run p [f1, g] s)) = []"
    and "\<not> tracking (name n) (snd (run p [f1, g] s))"
    using brief_one[of n s p f1 g m] by simp_all
  from a show "fired (fst (run p [f1, f2, g] s)) = []"
    and "\<not> tracking (name n) (snd (run p [f1, f2, g] s))"
    using brief_two[of n s p f1 f2 g m] by simp_all
qed

text \<open>The theorem at three frames of A4 from the initial state, and at one or two frames
  of A4 followed by C4.\<close>

theorem stability_threshold_witness:
  "snd (candidate normal (toneFrame 440 1000)) = Some A4
   \<and> snd (candidate normal (toneFrame middleC 1032)) = Some C4 \<and> name C4 \<noteq> name A4
   \<and> live released (toneFrame 440 1000) \<and> cooled (name A4) released (toneFrame 440 1000)
   \<and> \<not> tracking (name A4) released
   \<and> fired (fst (run normal [toneFrame 440 1000, toneFrame 440 1016] released)) = []
   \<and> fired (fst (run normal [toneFrame 440 1000, toneFrame 440 1016, toneFrame 440 1032] released))
       = [OnNote ''A'' 4]
   \<and> stableNote (snd (run normal [toneFrame 440 1000, toneFrame 440 1016, toneFrame 440 1032] released))
       = None
   \<and> fired (fst (run normal [toneFrame 440 1000, toneFrame middleC 1032] released)) = []
   \<and> fired (fst (run normal [toneFrame 440 1000, toneFrame 440 1016, toneFrame middleC 1032] released))
       = []"
proof -
  have c: "snd (candidate normal (toneFrame 440 t)) = Some A4" for t
    by (simp add: candidate_440)
  have g: "snd (candidate normal (toneFrame middleC 1032)) = Some C4" "name C4 \<noteq> name A4"
    by (simp_all add: candidate_middleC C4_def A4_def)
  have l: "live released (toneFrame 440 t)" if "0 \<le> t" for t
    using that by (simp add: live_def released_def now_tone)
  have k: "cooled (name A4) released (toneFrame 440 t)" if "100 \<le> t" for t
    using that by (simp add: cooled_def released_def now_tone ANY_NOTE_COOLDOWN_MS_def)
  have z: "\<not> tracking (name A4) released" by (simp add: tracking_def released_def)
  show ?thesis
    using c g l[of 1000] k[of 1000] z
      stability_threshold[of normal "toneFrame 440 1000" A4 "toneFrame 440 1016"
        "toneFrame 440 1032" released _ "toneFrame middleC 1032" C4]
      l[of 1016] l[of 1032] k[of 1016] k[of 1032]
    by (simp add: A4_def)
qed

text \<open>
  C1 as it is stated fails in two places. A4 for two frames followed by the differing
  candidate A5 does fire: A5 has the letter of A4 and brings the count to three. And three
  frames of A4 with both cooldowns over fire nothing while detection is suppressed.
\<close>

theorem stability_threshold_counterexample:
  "snd (candidate normal (toneFrame 440 1000)) = Some A4
   \<and> snd (candidate normal (toneFrame 440 1016)) = Some A4
   \<and> snd (candidate normal (toneFrame 880 1032)) = Some A5 \<and> A5 \<noteq> A4
   \<and> fired (fst (run normal [toneFrame 440 1000, toneFrame 440 1016, toneFrame 880 1032] released))
       = [OnNote ''A'' 4]
   \<and> cooled ''A'' (suppressMicListening 4000 900 released) (toneFrame 440 1000)
   \<and> cooled ''A'' (suppressMicListening 4000 900 released) (toneFrame 440 1016)
   \<and> cooled ''A'' (suppressMicListening 4000 900 released) (toneFrame 440 1032)
   \<and> fired (fst (run normal [toneFrame 440 1000, toneFrame 440 1016, toneFrame 440 1032]
        (suppressMicListening 4000 900 released))) = []"
  by (simp add: gate_eval suppressMicListening_def cooled_def)


text \<open>
  C2, as the code has it. From the initial gate state, under the \<^verbatim>\<open>normal\<close> preset, when
  every frame yields the candidate A4: the first two frames invoke nothing, the third
  invokes \<^verbatim>\<open>onNote('A', 4)\<close>, and no further invocation follows in any frame up to 1500 ms
  (\<^verbatim>\<open>SAME_NOTE_COOLDOWN_MS\<close>) after the third.
\<close>

theorem sustained_tone:
  "stableNote s = None \<and> lastFiredNote s = None \<and> lastFiredTime s = 0 \<and> suppressUntil s = 0
   \<and> (\<forall>f \<in> set (f1 # f2 # f3 # rest). snd (candidate normal f) = Some A4)
   \<and> 100 \<le> now f1 \<and> 100 \<le> now f2 \<and> 100 \<le> now f3
   \<and> (\<forall>f \<in> set rest. now f \<le> now f3 + 1500) \<longrightarrow>
     fired (fst (run normal [f1, f2] s)) = []
     \<and> fired (fst (run normal [f1, f2, f3] s)) = [OnNote ''A'' 4]
     \<and> fired (fst (run normal (f1 # f2 # f3 # rest) s)) = [OnNote ''A'' 4]"
proof (intro impI)
  assume a: "stableNote s = None \<and> lastFiredNote s = None \<and> lastFiredTime s = 0
   \<and> suppressUntil s = 0
   \<and> (\<forall>f \<in> set (f1 # f2 # f3 # rest). snd (candidate normal f) = Some A4)
   \<and> 100 \<le> now f1 \<and> 100 \<le> now f2 \<and> 100 \<le> now f3
   \<and> (\<forall>f \<in> set rest. now f \<le> now f3 + 1500)"
  define s3 where "s3 = snd (run normal [f1, f2, f3] s)"
  have c: "snd (candidate normal f1) = Some A4" "snd (candidate normal f2) = Some A4"
    "snd (candidate normal f3) = Some A4"
    using a by simp_all
  have l: "live s f1" "live s f2" "live s f3"
    using a by (simp_all add: live_def)
  have k: "cooled (name A4) s f1" "cooled (name A4) s f2" "cooled (name A4) s f3"
    using a by (simp_all add: cooled_def ANY_NOTE_COOLDOWN_MS_def)
  have z: "support (name A4) s = 0" using a by (simp add: support_idle)
  have h: "held A4 s = A4" using a by (simp add: held_def)
  have t: "fired (fst (run normal [f1, f2, f3] s)) = [OnNote ''A'' 4]"
    using three_same(1)[OF c l k] h by (simp add: A4_def)
  have u: "fired (fst (run normal [f1, f2] s)) = []
           \<and> stableNote s3 = None \<and> stableCount s3 = 0
           \<and> lastFiredNote s3 = Some (name A4) \<and> lastFiredTime s3 = now f3
           \<and> suppressUntil s3 = suppressUntil s"
    unfolding s3_def by (rule three_same(2)[OF c l k z])
  have r: "fired (fst (run normal rest s3)) = []"
  proof (rule hold_run[of _ "name A4"])
    show "lastFiredNote s3 = Some (name A4)" using u by simp
    show "stableNote s3 = None \<or> tracking (name A4) s3" using u by simp
    show "\<forall>fr\<in>set rest. (case snd (candidate normal fr) of None \<Rightarrow> True | Some n \<Rightarrow> name n = name A4)
        \<and> now fr - lastFiredTime s3 \<le> SAME_NOTE_COOLDOWN_MS"
      using a u by (auto simp add: SAME_NOTE_COOLDOWN_MS_def)
  qed
  have "run normal (f1 # f2 # f3 # rest) s = run normal ([f1, f2, f3] @ rest) s" by simp
  then have "fired (fst (run normal (f1 # f2 # f3 # rest) s)) = [OnNote ''A'' 4]"
    using t r unfolding run_append s3_def[symmetric] by (simp add: fired_append)
  then show "fired (fst (run normal [f1, f2] s)) = []
     \<and> fired (fst (run normal [f1, f2, f3] s)) = [OnNote ''A'' 4]
     \<and> fired (fst (run normal (f1 # f2 # f3 # rest) s)) = [OnNote ''A'' 4]"
    using t u by simp
qed

lemma sustained_split:
  "3 \<le> k \<Longrightarrow> sustained k = toneFrame 440 1000 # toneFrame 440 1016 # toneFrame 440 1032
     # map (\<lambda>i. toneFrame 440 (1000 + 16 * int i)) [3..<k]"
  by (simp add: sustained_def upt_conv_Cons numeral_3_eq_3)

lemma sustained_candidates: "list_all carriesA4 (sustained k)"
proof -
  have "rmsThreshold normal = 15 / 1000" by (simp add: normal_def)
  with sqrt2_half have "rmsThreshold normal \<le> 1 / sqrt 2" by linarith
  then have "num_ge (getRms (buf (toneFrame 440 t))) (rmsThreshold normal)" for t
    by (simp only: rms_tone num_ge.simps)
  then show ?thesis
    by (simp add: sustained_def list_all_iff candidate_440 carriesA4_def)
qed

text \<open>The theorem at 90 frames of a 440 Hz tone, 16 ms apart.\<close>

theorem sustained_tone_witness:
  "list_all carriesA4 (sustained 90)
   \<and> now (last (sustained 90)) = 2424 \<and> (2424::int) \<le> 1032 + 1500
   \<and> fired (fst (run normal (sustained 90) released)) = [OnNote ''A'' 4]"
proof -
  define rest where "rest = map (\<lambda>i. toneFrame 440 (1000 + 16 * int i)) [3..<90]"
  have sp: "sustained 90 = toneFrame 440 1000 # toneFrame 440 1016 # toneFrame 440 1032 # rest"
    unfolding rest_def by (rule sustained_split) simp
  have c: "\<forall>f \<in> set (sustained 90). snd (candidate normal f) = Some A4"
    using sustained_candidates[of 90] by (simp add: list_all_iff carriesA4_def)
  have w: "\<forall>f \<in> set (sustained 90). 1000 \<le> now f \<and> now f \<le> 1032 + 1500"
    by (auto simp add: sustained_def now_tone)
  have e: "now (last (sustained 90)) = 2424"
    by (simp add: sustained_def last_map now_tone)
  have "fired (fst (run normal (toneFrame 440 1000 # toneFrame 440 1016 # toneFrame 440 1032 # rest)
      released)) = [OnNote ''A'' 4]"
    using sustained_tone[of released "toneFrame 440 1000" "toneFrame 440 1016" "toneFrame 440 1032" rest]
      c w unfolding sp by (simp add: released_def now_tone)
  then show ?thesis using sustained_candidates[of 90] e unfolding sp[symmetric] by simp
qed

text \<open>
  C2 as it is stated fails for a tone held longer than the same-note cooldown: of 100
  frames of a 440 Hz tone, 16 ms apart, the third fires A4 and so does the 97th, 1504 ms
  later.
\<close>

theorem sustained_tone_counterexample:
  "list_all carriesA4 (sustained 100)
   \<and> fired (fst (run normal (sustained 100) released)) = [OnNote ''A'' 4, OnNote ''A'' 4]"
proof -
  have "fired (fst (run normal (sustained 100) released)) = [OnNote ''A'' 4, OnNote ''A'' 4]"
    by (simp add: sustained_def upt_rec gate_eval)
  then show ?thesis using sustained_candidates[of 100] by simp
qed

section \<open>Properties of the silence gap\<close>


lemma silenceGap_fields:
  "suppressUntil (silenceGap p fr s) = suppressUntil s"
  "lastFiredTime (silenceGap p fr s) = lastFiredTime s"
  "stableNote (silenceGap p fr s) = stableNote s"
  "stableCount (silenceGap p fr s) = stableCount s"
  "silenceFrames (silenceGap p fr s) = (if quiet p fr then silenceFrames s + 1 else 0)"
  by (simp_all add: silenceGap_def quiet_def Let_def)




lemma tracking_silenceGap: "tracking X (silenceGap p fr s) = tracking X s"
  by (simp add: tracking_def silenceGap_fields)

lemma support_silenceGap: "support X (silenceGap p fr s) = support X s"
  by (simp add: support_def silenceGap_fields split: option.splits)

lemma held_silenceGap: "held n (silenceGap p fr s) = held n s"
  by (simp add: held_def silenceGap_fields split: option.splits)
















subsection \<open>Sample frames of the McLeod variant\<close>





subsection \<open>The frame that fires and the frame that completes a gap\<close>
















subsection \<open>The claim about the silence gap\<close>




end
